theory Spec2Isabelle
  imports Complex_Main
begin

section \<open>Machine integers\<close>

text \<open>
  Go's \<open>int\<close> is taken to be 64 bits wide (the amd64 and arm64 ports) and \<open>uint64\<close> is
  64 bits everywhere. Values are carried as mathematical integers; every conversion
  and every operation that can leave the range is wrapped explicitly, as Go defines it.
\<close>

definition u64 :: "int \<Rightarrow> int" where
  "u64 x = x mod 18446744073709551616"

definition i64 :: "int \<Rightarrow> int" where
  "i64 x = (x + 9223372036854775808) mod 18446744073709551616 - 9223372036854775808"

section \<open>neuron.go: ParallelFor\<close>

text \<open>
  \<open>ParallelFor\<close> starts \<open>P = runtime.GOMAXPROCS(0)\<close> goroutines that share the counter
  \<open>idx\<close>. The only shared step is \<open>atomic.AddUint64\<close>, so a run is an interleaving of
  whole loop iterations: the state holds the counter, which workers are still inside
  their \<open>for\<close> loop, and the calls \<open>f(start, end)\<close> made so far, in the order of the
  claims. A schedule names the worker that performs the next iteration.
\<close>

record pf_state =
  idx :: int
  running :: "bool list"
  calls :: "(int \<times> int) list"

definition AddUint64 :: "int \<Rightarrow> int \<Rightarrow> int" where
  "AddUint64 addr delta = u64 (addr + delta)"

definition worker_iteration :: "int \<Rightarrow> int \<Rightarrow> nat \<Rightarrow> pf_state \<Rightarrow> pf_state" where
  "worker_iteration n grain p st =
     (if p < length (running st) \<and> running st ! p then
        let idx' = AddUint64 (idx st) (u64 grain);
            start = i64 (i64 idx' - grain)
        in if start \<ge> n then st\<lparr>idx := idx', running := (running st)[p := False]\<rparr>
           else let e = i64 (start + grain);
                    e' = (if e > n then n else e)
                in st\<lparr>idx := idx', calls := calls st @ [(start, e')]\<rparr>
      else st)"

definition ParallelFor_init :: "nat \<Rightarrow> pf_state" where
  "ParallelFor_init P = \<lparr>idx = 0, running = replicate P True, calls = []\<rparr>"

definition ParallelFor :: "nat \<Rightarrow> int \<Rightarrow> int \<Rightarrow> nat list \<Rightarrow> pf_state" where
  "ParallelFor P n grain sched =
     foldl (\<lambda>st p. worker_iteration n grain p st) (ParallelFor_init P) sched"

text \<open>\<open>wg.Wait()\<close> returns once every worker has left its loop.\<close>

definition returned :: "pf_state \<Rightarrow> bool" where
  "returned st = (True \<notin> set (running st))"


text \<open>The chunks of the specification: \<open>[j * grain, min (j * grain + grain) n)\<close>.\<close>

definition nchunks :: "int \<Rightarrow> int \<Rightarrow> nat" where
  "nchunks n grain = nat ((n + grain - 1) div grain)"

definition chunk :: "int \<Rightarrow> int \<Rightarrow> nat \<Rightarrow> int \<times> int" where
  "chunk n grain j = (int j * grain, min (int j * grain + grain) n)"


text \<open>
  The invariant of a run without wrap-around: with \<open>c\<close> calls made and \<open>d\<close> workers gone,
  the counter stands at \<open>(c + d) * grain\<close>, the calls are the first \<open>c\<close> chunks, and no
  worker leaves before the last chunk is claimed.
\<close>

definition ndone :: "pf_state \<Rightarrow> nat" where
  "ndone st = count_list (running st) False"

definition pf_inv :: "nat \<Rightarrow> int \<Rightarrow> int \<Rightarrow> pf_state \<Rightarrow> bool" where
  "pf_inv P n g st =
     (length (running st) = P \<and>
      idx st = (int (length (calls st)) + int (ndone st)) * g \<and>
      calls st = map (chunk n g) [0..<length (calls st)] \<and>
      length (calls st) \<le> nchunks n g \<and>
      (0 < ndone st \<longrightarrow> length (calls st) = nchunks n g))"

section \<open>Panics and errors\<close>

text \<open>
  A Go function of this package either returns, possibly with an \<open>error\<close> value made by
  \<open>errors.New\<close> and a \<open>nil\<close> result, or panics in the runtime. Both are values here: a
  function returns \<open>Inl (Error msg)\<close>, \<open>Inl (Panic why)\<close> or \<open>Inr result\<close>.
\<close>

datatype fault =
  IndexOutOfRange | SliceBoundsOutOfRange | MakeSliceLen | NilDereference | ExplicitPanic

datatype error = Error string | Panic fault

section \<open>neuron.go: the Neuron interface and SumNeuron\<close>

text \<open>
  \<open>float64\<close> values are kept abstract: a type \<open>'f\<close> with the operations the code uses
  and no law assumed about them. A value of the interface type \<open>Neuron\<close> is the record of
  the methods prediction and construction call; \<open>Combine\<close> reads its two slices and
  returns a number or panics (\<open>Inl\<close> of the fault). The methods used only by training are left out.
\<close>

record 'f Neuron =
  NumParameters :: "int \<Rightarrow> int"
  Activate :: "'f \<Rightarrow> 'f"
  Combine :: "'f list \<Rightarrow> 'f list \<Rightarrow> fault + 'f"

text \<open>\<open>for i, val := range inputs { combination += parameters[i] * val }\<close>\<close>

fun weighted_sum :: "'f::{plus,times} list \<Rightarrow> nat \<Rightarrow> 'f list \<Rightarrow> 'f \<Rightarrow> fault + 'f" where
  "weighted_sum parameters i [] combination = Inr combination"
| "weighted_sum parameters i (val # rest) combination =
     (if i < length parameters
      then weighted_sum parameters (Suc i) rest (combination + parameters ! i * val)
      else Inl IndexOutOfRange)"

definition SumNeuron_Combine :: "'f::{zero,plus,times} list \<Rightarrow> 'f list \<Rightarrow> fault + 'f" where
  "SumNeuron_Combine parameters inputs =
     (case weighted_sum parameters 0 inputs 0 of
        Inl e \<Rightarrow> Inl e
      | Inr combination \<Rightarrow>
          if parameters = [] then Inl IndexOutOfRange
          else Inr (combination + parameters ! (length parameters - 1)))"

definition SumNeuron :: "('f \<Rightarrow> 'f) \<Rightarrow> ('f::{zero,plus,times}) Neuron" where
  "SumNeuron activator =
     \<lparr>NumParameters = (\<lambda>nInputs. i64 (nInputs + 1)),
      Activate = activator,
      Combine = SumNeuron_Combine\<rparr>"

text \<open>\<open>Linear.Activate\<close> is the identity. \<open>Tanh.Activate\<close> calls \<open>math.Tanh\<close>, which is
  not modelled: the hidden layers' activation is a parameter of \<open>NewSimpleTrainer\<close>.\<close>

definition Linear_Activate :: "'f \<Rightarrow> 'f" where
  "Linear_Activate s = s"

definition LinearNeuron :: "('f::{zero,plus,times}) Neuron" where
  "LinearNeuron = SumNeuron Linear_Activate"

section \<open>nnet.go: Net and its construction\<close>

record 'f Net =
  inputDim :: int
  outputDim :: int
  totalNumParameters :: int
  grainSize :: int
  neurons :: "'f Neuron list list"
  parameters :: "'f list list list"

text \<open>
  \<open>make([]T, n)\<close> is the runtime's \<open>makeslice\<close>: it panics with
  \<open>makeslice: len out of range\<close> when \<open>n\<close> is negative and when \<open>n\<close> elements of the size of
  \<open>T\<close> take more than \<open>maxAlloc\<close> bytes, which is \<open>2^48\<close> on the 64-bit platforms (the
  product is computed in \<open>uintptr\<close>; one that overflows is above \<open>maxAlloc\<close> as a number).
  The sizes on these platforms: a \<open>float64\<close> has 8 bytes, a \<open>Neuron\<close> (an interface value)
  16, a slice header 24. An allocation that \<open>makeslice\<close> accepts is taken to succeed.
\<close>

definition maxAlloc :: int where
  "maxAlloc = 2 ^ 48"

definition makeslice_panics :: "int \<Rightarrow> int \<Rightarrow> bool" where
  "makeslice_panics elemSize n = (n < 0 \<or> maxAlloc < elemSize * n)"

text \<open>\<open>make([]float64, n)\<close> for a value: \<open>n\<close> zeros, or the panic.\<close>

definition make_values :: "int \<Rightarrow> error + ('f::zero) list" where
  "make_values n =
     (if makeslice_panics 8 n then Inl (Panic MakeSliceLen) else Inr (replicate (nat n) 0))"

text \<open>
  \<open>setGrainSize\<close> computes in \<open>float64\<close>. A finite \<open>float64\<close> is the real number it
  denotes, and \<open>fl\<close> is the rounding of a real result to \<open>float64\<close>: the constant
  \<open>0.7\<close>, the conversion \<open>float64(nOps)\<close>, the product and the quotient are each rounded
  once. \<open>math.Ceil\<close> is exact. When \<open>nOps\<close> is 0 the quotient is \<open>+Inf\<close>, whose conversion
  to \<open>int\<close> Go leaves to the implementation; amd64 gives the least \<open>int\<close>.
\<close>

definition setGrainSize :: "(real \<Rightarrow> real) \<Rightarrow> ('f, 'z) Net_scheme \<Rightarrow> ('f, 'z) Net_scheme" where
  "setGrainSize fl n =
     (let neuronOverhead = 70;
          layerOverhead = 200;
          nNeurons = foldl (\<lambda>s layer. i64 (s + int (length layer))) 0 (neurons n);
          nOps = i64 (i64 (totalNumParameters n + i64 (nNeurons * neuronOverhead))
                      + i64 (layerOverhead * int (length (neurons n))));
          c = fl 0.7;
          d = fl (c * fl (real_of_int nOps));
          g = (if d = 0 then - 9223372036854775808 else \<lceil>fl (100000 / d)\<rceil>);
          g' = (if g < 1 then 1 else g)
      in n\<lparr>grainSize := g'\<rparr>)"

definition HackGrainSize :: "int \<Rightarrow> ('f, 'z) Net_scheme \<Rightarrow> ('f, 'z) Net_scheme" where
  "HackGrainSize g n = n\<lparr>grainSize := g\<rparr>"

definition GrainSize :: "('f, 'z) Net_scheme \<Rightarrow> int" where
  "GrainSize n = grainSize n"

text \<open>
  The two loops of \<open>NewTrainer\<close> that allocate the parameters and count them:
  \<open>parameters[i] = make([][]float64, len(layer))\<close>, then for each neuron
  \<open>parameters[i][j] = make([]float64, nParameters)\<close>.
\<close>

fun layer_parameters ::
  "'f Neuron list \<Rightarrow> int \<Rightarrow> int \<Rightarrow> error + (('f::zero) list list \<times> int)" where
  "layer_parameters [] nLayerInputs tot = Inr ([], tot)"
| "layer_parameters (neuron # rest) nLayerInputs tot =
     (let nParameters = NumParameters neuron nLayerInputs in
      case make_values nParameters of
        Inl e \<Rightarrow> Inl e
      | Inr ps \<Rightarrow>
          (case layer_parameters rest nLayerInputs (i64 (tot + nParameters)) of
             Inl e \<Rightarrow> Inl e
           | Inr (pss, tot') \<Rightarrow> Inr (ps # pss, tot')))"

fun net_parameters ::
  "'f Neuron list list \<Rightarrow> int \<Rightarrow> int \<Rightarrow> error + (('f::zero) list list list \<times> int)" where
  "net_parameters [] nLayerInputs tot = Inr ([], tot)"
| "net_parameters (layer # rest) nLayerInputs tot =
     (if makeslice_panics 24 (int (length layer)) then Inl (Panic MakeSliceLen)
      else case layer_parameters layer nLayerInputs tot of
             Inl e \<Rightarrow> Inl e
           | Inr (lp, tot') \<Rightarrow>
               (case net_parameters rest (int (length layer)) tot' of
                  Inl e \<Rightarrow> Inl e
                | Inr (ps, tot'') \<Rightarrow> Inr (lp # ps, tot'')))"

definition NewTrainer ::
  "(real \<Rightarrow> real) \<Rightarrow> int \<Rightarrow> int \<Rightarrow> 'f Neuron list list \<Rightarrow> error + ('f::zero) Net" where
  "NewTrainer fl inDim outDim ns =
     (if length ns = 0 then Inl (Error ''net: no neurons given'')
      else if list_ex (\<lambda>layer. length layer = 0) ns
      then Inl (Error ''net: layer with no neurons'')
      else if makeslice_panics 24 (int (length ns)) then Inl (Panic MakeSliceLen)
      else case net_parameters ns inDim 0 of
             Inl e \<Rightarrow> Inl e
           | Inr (ps, tot) \<Rightarrow>
               Inr (setGrainSize fl
                 \<lparr>inputDim = inDim, outputDim = outDim, totalNumParameters = tot,
                  grainSize = 0, neurons = ns, parameters = ps\<rparr>))"

text \<open>
  \<open>NewSimpleTrainer\<close>. The third test repeats \<open>inputDim <= 0\<close>, as the source does. After
  the tests, in the order of the source: \<open>make([][]Neuron, nHiddenLayers+1)\<close>; for each
  hidden layer \<open>neurons[i] = make([]Neuron, nNeuronsPerLayer)\<close>, whose index is in range;
  then \<open>neurons[nHiddenLayers] = make([]Neuron, outputDim)\<close>, where the right-hand side
  is evaluated before the element is assigned, and the index is out of range when
  \<open>nHiddenLayers\<close> is \<open>-1\<close>; then \<open>NewTrainer\<close>.
\<close>

definition NewSimpleTrainer ::
  "(real \<Rightarrow> real) \<Rightarrow> ('f \<Rightarrow> 'f) \<Rightarrow> int \<Rightarrow> int \<Rightarrow> int \<Rightarrow> int \<Rightarrow> ('f \<Rightarrow> 'f)
     \<Rightarrow> error + ('f::{zero,plus,times}) Net" where
  "NewSimpleTrainer fl tanhActivate inDim outDim nHiddenLayers nNeuronsPerLayer finalLayerActivator =
     (if inDim \<le> 0 then Inl (Error ''non-positive input dimension'')
      else if outDim \<le> 0 then Inl (Error ''non-positive output dimension'')
      else if inDim \<le> 0 then Inl (Error ''non-positive number of neurons per layer'')
      else if makeslice_panics 24 (i64 (nHiddenLayers + 1)) then Inl (Panic MakeSliceLen)
      else if 0 < nHiddenLayers \<and> makeslice_panics 16 nNeuronsPerLayer
      then Inl (Panic MakeSliceLen)
      else if makeslice_panics 16 outDim then Inl (Panic MakeSliceLen)
      else if nHiddenLayers < 0 then Inl (Panic IndexOutOfRange)
      else NewTrainer fl inDim outDim
             (replicate (nat nHiddenLayers)
                (replicate (nat nNeuronsPerLayer) (SumNeuron tanhActivate))
              @ [replicate (nat outDim) (SumNeuron finalLayerActivator)]))"

text \<open>
  What C8 calls \<open>nOps\<close>, from the sizes of the network: the parameters that were
  allocated, the units and the layers.
\<close>

definition totalNeurons :: "'a list list \<Rightarrow> int" where
  "totalNeurons ns = (\<Sum>layer\<leftarrow>ns. int (length layer))"

definition countParameters :: "'a list list list \<Rightarrow> int" where
  "countParameters ps = (\<Sum>layer\<leftarrow>ps. \<Sum>v\<leftarrow>layer. int (length v))"

definition nOps :: "('f, 'z) Net_scheme \<Rightarrow> int" where
  "nOps n = totalNumParameters n + 70 * totalNeurons (neurons n) + 200 * int (length (neurons n))"

text \<open>
  The standard model of rounding to nearest: within the normal range (here a part of it
  that holds every value \<open>setGrainSize\<close> meets) the relative error of a rounded result is
  at most \<open>2^-53\<close>.
\<close>

definition rounds_float64 :: "(real \<Rightarrow> real) \<Rightarrow> bool" where
  "rounds_float64 fl =
     (\<forall>x. 1 / 2 ^ 64 \<le> \<bar>x\<bar> \<and> \<bar>x\<bar> \<le> 2 ^ 64 \<longrightarrow> \<bar>fl x - x\<bar> \<le> \<bar>x\<bar> / 2 ^ 53)"

section \<open>Memory and slices\<close>

text \<open>
  \<open>predict\<close> writes through slices that may share their backing arrays, so the
  \<open>float64\<close> cells live in one flat memory. A slice is Go's slice header: the address of
  its first element, its length and its capacity. \<open>make_slice\<close> (Go's \<open>make\<close>) takes the cells from \<open>brk\<close>
  upwards, which no slice made before reaches, and zeroes them.
\<close>

record 'f memory =
  cells :: "nat \<Rightarrow> 'f"
  brk :: nat

record slice =
  ptr :: nat
  len :: nat
  cap :: nat

definition contents :: "'f memory \<Rightarrow> slice \<Rightarrow> 'f list" where
  "contents m s = map (\<lambda>i. cells m (ptr s + i)) [0..<len s]"

text \<open>\<open>s[i] = v\<close>, after its bounds check.\<close>

definition store :: "'f memory \<Rightarrow> slice \<Rightarrow> nat \<Rightarrow> 'f \<Rightarrow> 'f memory" where
  "store m s i v = m\<lparr>cells := (cells m)(ptr s + i := v)\<rparr>"

text \<open>\<open>s[:k]\<close> panics when \<open>k\<close> exceeds the capacity.\<close>

definition reslice :: "slice \<Rightarrow> nat \<Rightarrow> error + slice" where
  "reslice s k = (if k \<le> cap s then Inr (s\<lparr>len := k\<rparr>) else Inl (Panic SliceBoundsOutOfRange))"

definition make_slice :: "int \<Rightarrow> ('f::zero) memory \<Rightarrow> error + (slice \<times> 'f memory)" where
  "make_slice n m =
     (if n < 0 then Inl (Panic MakeSliceLen)
      else Inr (\<lparr>ptr = brk m, len = nat n, cap = nat n\<rparr>,
                m\<lparr>cells := (\<lambda>a. if brk m \<le> a \<and> a < brk m + nat n then 0 else cells m a),
                  brk := brk m + nat n\<rparr>))"

text \<open>The cells a slice can reach by indexing, and those it can reach after reslicing.\<close>

definition region :: "slice \<Rightarrow> nat set" where
  "region s = {ptr s ..< ptr s + len s}"

definition extent :: "slice \<Rightarrow> nat set" where
  "extent s = {ptr s ..< ptr s + cap s}"

section \<open>nnet.go: the forward pass\<close>

text \<open>
  \<open>processLayer\<close>: \<open>for i, neuron := range neurons\<close>. The input is read from memory at
  each call of \<open>Combine\<close>, so a write to an output cell that is also an input cell is
  seen by the units after it.
\<close>

fun processLayer_from ::
  "nat \<Rightarrow> slice \<Rightarrow> 'f Neuron list \<Rightarrow> 'f list list \<Rightarrow> slice \<Rightarrow> 'f memory \<Rightarrow> error + 'f memory"
where
  "processLayer_from i input [] ps output m = Inr m"
| "processLayer_from i input (neuron # rest) ps output m =
     (if i < length ps then
        case Combine neuron (ps ! i) (contents m input) of
          Inl f \<Rightarrow> Inl (Panic f)
        | Inr combination \<Rightarrow>
            if i < len output
            then processLayer_from (Suc i) input rest ps output
                   (store m output i (Activate neuron combination))
            else Inl (Panic IndexOutOfRange)
      else Inl (Panic IndexOutOfRange))"

definition processLayer ::
  "slice \<Rightarrow> 'f Neuron list \<Rightarrow> 'f list list \<Rightarrow> slice \<Rightarrow> 'f memory \<Rightarrow> error + 'f memory" where
  "processLayer input ns ps output m = processLayer_from 0 input ns ps output m"

text \<open>
  The loop over the middle layers, \<open>for i := 1; i < nLayers-1; i++\<close>. It returns the two
  scratch slices as the last iteration left them.
\<close>

function middle_layers ::
  "nat \<Rightarrow> nat \<Rightarrow> 'f Neuron list list \<Rightarrow> 'f list list list \<Rightarrow> slice \<Rightarrow> slice \<Rightarrow> 'f memory
     \<Rightarrow> error + (slice \<times> slice \<times> 'f memory)" where
  "middle_layers i nLayers nss pss prevTmpOutput tmpOutput m =
     (if i < nLayers - 1 then
        case reslice prevTmpOutput (length (nss ! i)) of
          Inl e \<Rightarrow> Inl e
        | Inr tmpOutput' \<Rightarrow>
            if i < length pss then
              case processLayer tmpOutput (nss ! i) (pss ! i) tmpOutput' m of
                Inl e \<Rightarrow> Inl e
              | Inr m' \<Rightarrow> middle_layers (Suc i) nLayers nss pss tmpOutput tmpOutput' m'
            else Inl (Panic IndexOutOfRange)
      else Inr (prevTmpOutput, tmpOutput, m))"
  by pat_completeness auto
termination
  by (relation "measure (\<lambda>(i, nLayers, nss, pss, prevTmpOutput, tmpOutput, m). nLayers - 1 - i)") auto

declare middle_layers.simps [simp del]

definition predict ::
  "slice \<Rightarrow> 'f Neuron list list \<Rightarrow> 'f list list list \<Rightarrow> slice \<Rightarrow> slice \<Rightarrow> slice \<Rightarrow> 'f memory
     \<Rightarrow> error + 'f memory" where
  "predict input nss pss prevTmpOutput tmpOutput output m =
     (let nLayers = length nss in
      if nLayers = 1 then
        if 0 < length pss then processLayer input (nss ! 0) (pss ! 0) output m
        else Inl (Panic IndexOutOfRange)
      else if nLayers = 0 then Inl (Panic IndexOutOfRange)
      else
        case reslice tmpOutput (length (nss ! 0)) of
          Inl e \<Rightarrow> Inl e
        | Inr tmpOutput' \<Rightarrow>
            if 0 < length pss then
              case processLayer input (nss ! 0) (pss ! 0) tmpOutput' m of
                Inl e \<Rightarrow> Inl e
              | Inr m1 \<Rightarrow>
                  (case middle_layers 1 nLayers nss pss prevTmpOutput tmpOutput' m1 of
                     Inl e \<Rightarrow> Inl e
                   | Inr (prevTmpOutput', tmpOutput'', m2) \<Rightarrow>
                       if nLayers - 1 < length pss
                       then processLayer tmpOutput'' (nss ! (nLayers - 1)) (pss ! (nLayers - 1))
                              output m2
                       else Inl (Panic IndexOutOfRange))
            else Inl (Panic IndexOutOfRange))"

text \<open>\<open>newPredictMemory\<close>: two buffers as long as the widest layer.\<close>

definition newPredictMemory ::
  "'f Neuron list list \<Rightarrow> ('f::zero) memory \<Rightarrow> error + (slice \<times> slice \<times> 'f memory)" where
  "newPredictMemory nss m =
     (case nss of
        [] \<Rightarrow> Inl (Panic IndexOutOfRange)
      | first # rest \<Rightarrow>
          let mx = foldl (\<lambda>mx layer. if length layer > mx then length layer else mx)
                     (length first) rest
          in case make_slice (int mx) m of
               Inl e \<Rightarrow> Inl e
             | Inr (prevOutput, m1) \<Rightarrow>
                 (case make_slice (int mx) m1 of
                    Inl e \<Rightarrow> Inl e
                  | Inr (output, m2) \<Rightarrow> Inr (prevOutput, output, m2)))"

text \<open>
  \<open>Net.Predict\<close>. A \<open>nil\<close> output is \<open>None\<close>. The result is the output slice and no error,
  or \<open>nil\<close> and an error.
\<close>

definition Predict ::
  "('f::zero) Net \<Rightarrow> slice \<Rightarrow> slice option \<Rightarrow> 'f memory \<Rightarrow> error + (slice \<times> 'f memory)" where
  "Predict n input output m =
     (if int (len input) \<noteq> inputDim n then Inl (Error ''input dimension mismatch'')
      else
        case (case output of
                None \<Rightarrow> make_slice (outputDim n) m
              | Some out \<Rightarrow>
                  if int (len out) \<noteq> outputDim n
                  then Inl (Error ''output dimension mismatch'')
                  else Inr (out, m)) of
          Inl e \<Rightarrow> Inl e
        | Inr (out, m1) \<Rightarrow>
            (case newPredictMemory (neurons n) m1 of
               Inl e \<Rightarrow> Inl e
             | Inr (prevOutput, tmpOutput, m2) \<Rightarrow>
                 (case predict input (neurons n) (parameters n) prevOutput tmpOutput out m2 of
                    Inl e \<Rightarrow> Inl e
                  | Inr m3 \<Rightarrow> Inr (out, m3))))"

section \<open>The forward pass as the specification words it\<close>

text \<open>
  Element \<open>i\<close> of a layer's output is \<open>unit[i].activate(unit[i].combine(parameters[i],
  layerInput))\<close>, and each layer's output is the next layer's input. \<open>layer_values\<close>
  lists the output of every layer, on values, with no buffer.
\<close>

fun layer_value_from :: "nat \<Rightarrow> 'f Neuron list \<Rightarrow> 'f list list \<Rightarrow> 'f list \<Rightarrow> error + 'f list" where
  "layer_value_from i [] ps xs = Inr []"
| "layer_value_from i (unit # rest) ps xs =
     (if i < length ps then
        case Combine unit (ps ! i) xs of
          Inl f \<Rightarrow> Inl (Panic f)
        | Inr c \<Rightarrow>
            (case layer_value_from (Suc i) rest ps xs of
               Inl e \<Rightarrow> Inl e
             | Inr ys \<Rightarrow> Inr (Activate unit c # ys))
      else Inl (Panic IndexOutOfRange))"

definition layer_value :: "'f Neuron list \<Rightarrow> 'f list list \<Rightarrow> 'f list \<Rightarrow> error + 'f list" where
  "layer_value ns ps xs = layer_value_from 0 ns ps xs"

fun layer_values_from ::
  "nat \<Rightarrow> 'f Neuron list list \<Rightarrow> 'f list list list \<Rightarrow> 'f list \<Rightarrow> error + 'f list list" where
  "layer_values_from i [] pss xs = Inr []"
| "layer_values_from i (ns # rest) pss xs =
     (if i < length pss then
        case layer_value ns (pss ! i) xs of
          Inl e \<Rightarrow> Inl e
        | Inr ys \<Rightarrow>
            (case layer_values_from (Suc i) rest pss ys of
               Inl e \<Rightarrow> Inl e
             | Inr yss \<Rightarrow> Inr (ys # yss))
      else Inl (Panic IndexOutOfRange))"

definition layer_values ::
  "'f Neuron list list \<Rightarrow> 'f list list list \<Rightarrow> 'f list \<Rightarrow> error + 'f list list" where
  "layer_values nss pss xs = layer_values_from 0 nss pss xs"

text \<open>The cells from address \<open>a\<close> on hold the values \<open>ys\<close>.\<close>

definition holds :: "'f memory \<Rightarrow> nat \<Rightarrow> 'f list \<Rightarrow> bool" where
  "holds m a ys = (map (\<lambda>k. cells m (a + k)) [0..<length ys] = ys)"

text \<open>
  The data model's invariant (section 3 of the specification): at least one layer, one
  parameter vector per unit, and every unit's \<open>Combine\<close> accepts its parameter vector with
  any input as wide as the layer's input; the declared output dimension is the width of
  the last layer.
\<close>

definition combine_total :: "'f Neuron \<Rightarrow> 'f list \<Rightarrow> nat \<Rightarrow> bool" where
  "combine_total unit ps w = (\<forall>xs. length xs = w \<longrightarrow> (\<exists>c. Combine unit ps xs = Inr c))"

fun valid_layers :: "nat \<Rightarrow> 'f Neuron list list \<Rightarrow> 'f list list list \<Rightarrow> bool" where
  "valid_layers w [] pss = (pss = [])"
| "valid_layers w (ns # nss) [] = False"
| "valid_layers w (ns # nss) (ps # pss) =
     (length ps = length ns
      \<and> (\<forall>j<length ns. combine_total (ns ! j) (ps ! j) w)
      \<and> valid_layers (length ns) nss pss)"

definition valid_net :: "'f Net \<Rightarrow> bool" where
  "valid_net n =
     (neurons n \<noteq> [] \<and> 0 \<le> inputDim n
      \<and> valid_layers (nat (inputDim n)) (neurons n) (parameters n)
      \<and> outputDim n = int (length (last (neurons n))))"

text \<open>Between \<open>m\<close> and \<open>m'\<close> only cells of \<open>S\<close> were written, and nothing was allocated.\<close>

definition only_writes :: "nat set \<Rightarrow> 'f memory \<Rightarrow> 'f memory \<Rightarrow> bool" where
  "only_writes S m m' = ((\<forall>a. a \<notin> S \<longrightarrow> cells m' a = cells m a) \<and> brk m' = brk m)"

section \<open>A network and a memory for the examples\<close>

text \<open>
  Three layers of linear sum units over the integers: two units, one unit, one unit.
  On the input \<open>[4, 5]\<close> the layers give \<open>[17, 5]\<close>, \<open>[23]\<close> and \<open>[47]\<close>. In the memory
  the input occupies cells 0 and 1 and the first free cell is 10.
\<close>

definition example_neurons :: "int Neuron list list" where
  "example_neurons = [[LinearNeuron, LinearNeuron], [LinearNeuron], [LinearNeuron]]"

definition example_parameters :: "int list list list" where
  "example_parameters = [[[1, 2, 3], [0, 1, 0]], [[1, 1, 1]], [[2, 1]]]"

definition example_net :: "int Net" where
  "example_net =
     \<lparr>inputDim = 2, outputDim = 1, totalNumParameters = 11, grainSize = 1,
      neurons = example_neurons, parameters = example_parameters\<rparr>"

definition example_memory :: "int memory" where
  "example_memory = \<lparr>cells = (\<lambda>a. 0)(0 := 4, 1 := 5), brk = 10\<rparr>"

definition example_input :: slice where
  "example_input = \<lparr>ptr = 0, len = 2, cap = 2\<rparr>"

section \<open>sosmatrix.go and interfaces.go: row matrices\<close>

text \<open>
  A value of the interface types \<open>RowMatrix\<close> and \<open>MutableRowMatrix\<close> is one of two
  things. \<open>SosMatrix\<close> is the package's own type, a slice of row slices in memory; it
  implements \<open>RowViewer\<close>, and its methods are translated from \<open>sosmatrix.go\<close>.
\<close>

text \<open>
  Modelled from the spec: the row-oriented source or sink of section 6 that does not
  offer the row view, for which the repository has the interface declarations only.
  \<open>CopyMatrix c rows\<close> keeps its \<open>c\<close>-column rows to itself, reports them in \<open>Dims\<close>, and
  reads and writes whole rows by copying, as \<open>SosMatrix\<close> does.
\<close>

datatype 'f matrix = SosMatrix "slice list" | CopyMatrix nat "'f list list"

definition Dims :: "'f matrix \<Rightarrow> error + (int \<times> int)" where
  "Dims a =
     (case a of
        SosMatrix s \<Rightarrow>
          (case s of
             [] \<Rightarrow> Inl (Panic IndexOutOfRange)
           | r # _ \<Rightarrow> Inr (int (length s), int (len r)))
      | CopyMatrix c rows \<Rightarrow> Inr (int (length rows), int c))"

text \<open>The type assertion \<open>a.(RowViewer)\<close>.\<close>

definition is_RowViewer :: "'f matrix \<Rightarrow> bool" where
  "is_RowViewer a = (case a of SosMatrix s \<Rightarrow> True | CopyMatrix c rows \<Rightarrow> False)"

text \<open>\<open>RowView\<close> through the asserted value, which is \<open>nil\<close> when the assertion failed.\<close>

definition RowView :: "'f matrix \<Rightarrow> int \<Rightarrow> error + slice" where
  "RowView a r =
     (case a of
        SosMatrix s \<Rightarrow>
          if 0 \<le> r \<and> r < int (length s) then Inr (s ! nat r) else Inl (Panic IndexOutOfRange)
      | CopyMatrix c rows \<Rightarrow> Inl (Panic NilDereference))"

text \<open>
  \<open>make([]float64, n)\<close> in memory, for a length the caller chose: \<open>makeslice\<close> refuses a
  negative one and one above its limit.
\<close>

definition make_float64s :: "int \<Rightarrow> ('f::zero) memory \<Rightarrow> error + (slice \<times> 'f memory)" where
  "make_float64s n m =
     (if makeslice_panics 8 n then Inl (Panic MakeSliceLen) else make_slice n m)"

text \<open>The builtin \<open>copy(dst, src)\<close>, from memory and from values.\<close>

definition copy :: "'f memory \<Rightarrow> slice \<Rightarrow> slice \<Rightarrow> 'f memory" where
  "copy m dst src =
     m\<lparr>cells := (\<lambda>a. if ptr dst \<le> a \<and> a < ptr dst + min (len dst) (len src)
                        then cells m (ptr src + (a - ptr dst)) else cells m a)\<rparr>"

definition copy_in :: "'f memory \<Rightarrow> slice \<Rightarrow> 'f list \<Rightarrow> 'f memory" where
  "copy_in m dst vs =
     m\<lparr>cells := (\<lambda>a. if ptr dst \<le> a \<and> a < ptr dst + min (len dst) (length vs)
                        then vs ! (a - ptr dst) else cells m a)\<rparr>"

definition Row :: "'f matrix \<Rightarrow> slice \<Rightarrow> int \<Rightarrow> ('f::zero) memory \<Rightarrow> error + (slice \<times> 'f memory)" where
  "Row a d i m =
     (case a of
        SosMatrix s \<Rightarrow>
          (case s of
             [] \<Rightarrow> Inl (Panic IndexOutOfRange)
           | first # _ \<Rightarrow>
               (case (if len d < len first then make_float64s (int (len first)) m
                      else Inr (d\<lparr>len := len first\<rparr>, m)) of
                  Inl e \<Rightarrow> Inl e
                | Inr (d', m1) \<Rightarrow>
                    if 0 \<le> i \<and> i < int (length s) then Inr (d', copy m1 d' (s ! nat i))
                    else Inl (Panic IndexOutOfRange)))
      | CopyMatrix c rows \<Rightarrow>
          (case (if len d < c then make_float64s (int c) m else Inr (d\<lparr>len := c\<rparr>, m)) of
             Inl e \<Rightarrow> Inl e
           | Inr (d', m1) \<Rightarrow>
               if 0 \<le> i \<and> i < int (length rows) then Inr (d', copy_in m1 d' (rows ! nat i))
               else Inl (Panic IndexOutOfRange)))"

definition SetRow :: "'f matrix \<Rightarrow> int \<Rightarrow> slice \<Rightarrow> 'f memory \<Rightarrow> error + ('f matrix \<times> 'f memory)" where
  "SetRow a i d m =
     (case a of
        SosMatrix s \<Rightarrow>
          if 0 \<le> i \<and> i < int (length s) then Inr (SosMatrix s, copy m (s ! nat i) d)
          else Inl (Panic IndexOutOfRange)
      | CopyMatrix c rows \<Rightarrow>
          if 0 \<le> i \<and> i < int (length rows)
          then let k = min (length (rows ! nat i)) (len d)
               in Inr (CopyMatrix c
                         (rows[nat i := take k (contents m d) @ drop k (rows ! nat i)]), m)
          else Inl (Panic IndexOutOfRange))"

section \<open>nnet.go: batchPredictor and predictor\<close>

record 'f batchPredictor =
  b_neurons :: "'f Neuron list list"
  b_parameters :: "'f list list list"
  b_inputDim :: int
  b_outputDim :: int

record 'f predictor =
  p_neurons :: "'f Neuron list list"
  p_parameters :: "'f list list list"
  tmpOutput :: slice
  prevTmpOutput :: slice
  p_inputDim :: int
  p_outputDim :: int

definition NewPredictor ::
  "'f batchPredictor \<Rightarrow> ('f::zero) memory \<Rightarrow> error + ('f predictor \<times> 'f memory)" where
  "NewPredictor b m =
     (case newPredictMemory (b_neurons b) m of
        Inl e \<Rightarrow> Inl e
      | Inr (prevOutput, tmpOut, m') \<Rightarrow>
          Inr (\<lparr>p_neurons = b_neurons b, p_parameters = b_parameters b,
                tmpOutput = tmpOut, prevTmpOutput = prevOutput,
                p_inputDim = b_inputDim b, p_outputDim = b_outputDim b\<rparr>, m'))"

definition predictor_Predict ::
  "'f predictor \<Rightarrow> slice \<Rightarrow> slice \<Rightarrow> 'f memory \<Rightarrow> error + 'f memory" where
  "predictor_Predict p input output m =
     predict input (p_neurons p) (p_parameters p) (prevTmpOutput p) (tmpOutput p) output m"

section \<open>BatchPredict\<close>

text \<open>
  The checks and the allocation that come before the dispatch. The result is the early
  return of \<open>BatchPredict\<close> (\<open>Inr (Inl ...)\<close>: the outputs as given and the error) or the
  number of samples and the sink to fill (\<open>Inr (Inr ...)\<close>). For \<open>nil\<close> outputs,
  \<open>make(SosMatrix, nSamples)\<close> makes the slice of the row headers, which are not cells of
  the \<open>float64\<close> memory, and \<open>alloc_rows\<close> is the loop that makes the rows.
\<close>

fun alloc_rows :: "nat \<Rightarrow> int \<Rightarrow> ('f::zero) memory \<Rightarrow> error + (slice list \<times> 'f memory)" where
  "alloc_rows 0 outDim m = Inr ([], m)"
| "alloc_rows (Suc k) outDim m =
     (case make_float64s outDim m of
        Inl e \<Rightarrow> Inl e
      | Inr (r, m1) \<Rightarrow>
          (case alloc_rows k outDim m1 of
             Inl e \<Rightarrow> Inl e
           | Inr (rs, m2) \<Rightarrow> Inr (r # rs, m2)))"

definition BatchPredict_checks ::
  "'f matrix \<Rightarrow> 'f matrix option \<Rightarrow> int \<Rightarrow> int \<Rightarrow> ('f::zero) memory
     \<Rightarrow> error + (('f matrix option \<times> string) + (int \<times> 'f matrix \<times> 'f memory))" where
  "BatchPredict_checks inputs outputs inDim outDim m =
     (case Dims inputs of
        Inl e \<Rightarrow> Inl e
      | Inr (nSamples, dimInputs) \<Rightarrow>
          if inDim \<noteq> dimInputs
          then Inr (Inl (outputs, ''predict batch: input dimension mismatch''))
          else
            (case outputs of
               None \<Rightarrow>
                 if makeslice_panics 24 nSamples then Inl (Panic MakeSliceLen)
                 else
                   (case alloc_rows (nat nSamples) outDim m of
                      Inl e \<Rightarrow> Inl e
                    | Inr (s, m1) \<Rightarrow> Inr (Inr (nSamples, SosMatrix s, m1)))
             | Some out \<Rightarrow>
                 (case Dims out of
                    Inl e \<Rightarrow> Inl e
                  | Inr (nOutputSamples, dimOutputs) \<Rightarrow>
                      if dimOutputs \<noteq> outDim
                      then Inr (Inl (outputs, ''predict batch: output dimension mismatch''))
                      else if nSamples \<noteq> nOutputSamples
                      then Inr (Inl (outputs, ''predict batch: rows mismatch''))
                      else Inr (Inr (nSamples, out, m)))))"

text \<open>
  The \<open>switch\<close>. A tagless \<open>switch\<close> takes the first \<open>case\<close> with a true expression, and a
  \<open>case\<close> with a list is taken when any expression of the list is true; \<open>default\<close> is
  taken when no case is, wherever it stands. The first case reads
  \<open>case inputIsRowViewer, outputIsRowViewer:\<close>.
\<close>

datatype strategy = ViewBoth | ViewInputCopyOutput | CopyInputViewOutput | CopyBoth | ShouldntBeHere

definition select_strategy :: "bool \<Rightarrow> bool \<Rightarrow> strategy" where
  "select_strategy inputIsRowViewer outputIsRowViewer =
     (if inputIsRowViewer \<or> outputIsRowViewer then ViewBoth
      else if inputIsRowViewer \<and> \<not> outputIsRowViewer then ViewInputCopyOutput
      else if \<not> inputIsRowViewer \<and> outputIsRowViewer then CopyInputViewOutput
      else if \<not> inputIsRowViewer \<and> \<not> outputIsRowViewer then CopyBoth
      else ShouldntBeHere)"

text \<open>
  \<open>for i := start; i < end; i++\<close> over a state. The body sees the outputs and the memory;
  inside the loop \<open>i < end\<close>, so \<open>i + 1\<close> does not wrap.
\<close>

function rows_loop :: "(int \<Rightarrow> 's \<Rightarrow> error + 's) \<Rightarrow> int \<Rightarrow> int \<Rightarrow> 's \<Rightarrow> error + 's" where
  "rows_loop body i e st =
     (if i < e then
        case body i st of
          Inl x \<Rightarrow> Inl x
        | Inr st' \<Rightarrow> rows_loop body (i + 1) e st'
      else Inr st)"
  by pat_completeness auto
termination
  by (relation "measure (\<lambda>(body, i, e, st). nat (e - i))") auto

declare rows_loop.simps [simp del]

text \<open>The four closures \<open>f\<close>, one per case, applied to a chunk \<open>(start, end)\<close>.\<close>

definition f_ViewBoth ::
  "'f batchPredictor \<Rightarrow> 'f matrix \<Rightarrow> int \<times> int \<Rightarrow> 'f matrix \<times> ('f::zero) memory
     \<Rightarrow> error + ('f matrix \<times> 'f memory)" where
  "f_ViewBoth batch inputs ch st =
     (case NewPredictor batch (snd st) of
        Inl e \<Rightarrow> Inl e
      | Inr (p, m1) \<Rightarrow>
          rows_loop
            (\<lambda>i (outputs, m).
               case RowView inputs i of
                 Inl e \<Rightarrow> Inl e
               | Inr inrow \<Rightarrow>
                   (case RowView outputs i of
                      Inl e \<Rightarrow> Inl e
                    | Inr outrow \<Rightarrow>
                        (case predictor_Predict p inrow outrow m of
                           Inl e \<Rightarrow> Inl e
                         | Inr m' \<Rightarrow> Inr (outputs, m'))))
            (fst ch) (snd ch) (fst st, m1))"

definition f_ViewInputCopyOutput ::
  "'f batchPredictor \<Rightarrow> 'f matrix \<Rightarrow> int \<Rightarrow> int \<times> int \<Rightarrow> 'f matrix \<times> ('f::zero) memory
     \<Rightarrow> error + ('f matrix \<times> 'f memory)" where
  "f_ViewInputCopyOutput batch inputs outDim ch st =
     (case NewPredictor batch (snd st) of
        Inl e \<Rightarrow> Inl e
      | Inr (p, m1) \<Rightarrow>
          (case make_float64s outDim m1 of
             Inl e \<Rightarrow> Inl e
           | Inr (output, m2) \<Rightarrow>
               rows_loop
                 (\<lambda>i (outputs, m).
                    case Row outputs output i m of
                      Inl e \<Rightarrow> Inl e
                    | Inr (_, ma) \<Rightarrow>
                        (case RowView inputs i of
                           Inl e \<Rightarrow> Inl e
                         | Inr inrow \<Rightarrow>
                             (case predictor_Predict p inrow output ma of
                                Inl e \<Rightarrow> Inl e
                              | Inr mb \<Rightarrow> SetRow outputs i output mb)))
                 (fst ch) (snd ch) (fst st, m2)))"

definition f_CopyInputViewOutput ::
  "'f batchPredictor \<Rightarrow> 'f matrix \<Rightarrow> int \<Rightarrow> int \<times> int \<Rightarrow> 'f matrix \<times> ('f::zero) memory
     \<Rightarrow> error + ('f matrix \<times> 'f memory)" where
  "f_CopyInputViewOutput batch inputs inDim ch st =
     (case NewPredictor batch (snd st) of
        Inl e \<Rightarrow> Inl e
      | Inr (p, m1) \<Rightarrow>
          (case make_float64s inDim m1 of
             Inl e \<Rightarrow> Inl e
           | Inr (input, m2) \<Rightarrow>
               rows_loop
                 (\<lambda>i (outputs, m).
                    case Row inputs input i m of
                      Inl e \<Rightarrow> Inl e
                    | Inr (_, ma) \<Rightarrow>
                        (case RowView outputs i of
                           Inl e \<Rightarrow> Inl e
                         | Inr outrow \<Rightarrow>
                             (case predictor_Predict p input outrow ma of
                                Inl e \<Rightarrow> Inl e
                              | Inr mb \<Rightarrow> Inr (outputs, mb))))
                 (fst ch) (snd ch) (fst st, m2)))"

definition f_CopyBoth ::
  "'f batchPredictor \<Rightarrow> 'f matrix \<Rightarrow> int \<Rightarrow> int \<Rightarrow> int \<times> int \<Rightarrow> 'f matrix \<times> ('f::zero) memory
     \<Rightarrow> error + ('f matrix \<times> 'f memory)" where
  "f_CopyBoth batch inputs inDim outDim ch st =
     (case NewPredictor batch (snd st) of
        Inl e \<Rightarrow> Inl e
      | Inr (p, m1) \<Rightarrow>
          (case make_float64s inDim m1 of
             Inl e \<Rightarrow> Inl e
           | Inr (input, m2) \<Rightarrow>
               (case make_float64s outDim m2 of
                  Inl e \<Rightarrow> Inl e
                | Inr (output, m3) \<Rightarrow>
                    rows_loop
                      (\<lambda>i (outputs, m).
                         case Row inputs input i m of
                           Inl e \<Rightarrow> Inl e
                         | Inr (_, ma) \<Rightarrow>
                             (case Row outputs output i ma of
                                Inl e \<Rightarrow> Inl e
                              | Inr (_, mb) \<Rightarrow>
                                  (case predictor_Predict p input output mb of
                                     Inl e \<Rightarrow> Inl e
                                   | Inr mc \<Rightarrow> SetRow outputs i output mc)))
                      (fst ch) (snd ch) (fst st, m3))))"

definition chunk_closure ::
  "strategy \<Rightarrow> 'f batchPredictor \<Rightarrow> 'f matrix \<Rightarrow> int \<Rightarrow> int \<Rightarrow> int \<times> int
     \<Rightarrow> 'f matrix \<times> ('f::zero) memory \<Rightarrow> error + ('f matrix \<times> 'f memory)" where
  "chunk_closure s batch inputs inDim outDim =
     (case s of
        ViewBoth \<Rightarrow> f_ViewBoth batch inputs
      | ViewInputCopyOutput \<Rightarrow> f_ViewInputCopyOutput batch inputs outDim
      | CopyInputViewOutput \<Rightarrow> f_CopyInputViewOutput batch inputs inDim
      | CopyBoth \<Rightarrow> f_CopyBoth batch inputs inDim outDim
      | ShouldntBeHere \<Rightarrow> (\<lambda>ch st. Inl (Panic ExplicitPanic)))"

text \<open>
  The calls of \<open>f\<close> run in the workers. Each call works on rows of its own chunk and on
  buffers it allocates itself, so the calls are applied here one after the other, in the
  order in which \<open>ParallelFor\<close> handed the chunks out.
\<close>

fun run_calls ::
  "(int \<times> int \<Rightarrow> 's \<Rightarrow> error + 's) \<Rightarrow> (int \<times> int) list \<Rightarrow> 's \<Rightarrow> error + 's" where
  "run_calls f [] st = Inr st"
| "run_calls f (c # cs) st =
     (case f c st of
        Inl e \<Rightarrow> Inl e
      | Inr st' \<Rightarrow> run_calls f cs st')"

text \<open>
  What a call of \<open>BatchPredict\<close> comes to under a schedule of \<open>P\<close> workers: a panic, a
  \<open>ParallelFor\<close> that has not returned yet, or the two results and the memory. The
  \<open>default\<close> case panics before any worker starts. Neither the checks nor the closures
  make an \<open>error\<close> value other than the three mismatches; the cases for one are there
  for the types.
\<close>

datatype 'f batch_result =
  Crashed fault
  | Waiting
  | Returned "'f matrix option" "string option" "'f memory"

definition BatchPredict ::
  "nat \<Rightarrow> nat list \<Rightarrow> 'f batchPredictor \<Rightarrow> 'f matrix \<Rightarrow> 'f matrix option \<Rightarrow> int \<Rightarrow> int \<Rightarrow> int
     \<Rightarrow> ('f::zero) memory \<Rightarrow> 'f batch_result" where
  "BatchPredict P sched batch inputs outputs inDim outDim grain m =
     (case BatchPredict_checks inputs outputs inDim outDim m of
        Inl (Panic why) \<Rightarrow> Crashed why
      | Inl (Error msg) \<Rightarrow> Returned outputs (Some msg) m
      | Inr (Inl (outs, msg)) \<Rightarrow> Returned outs (Some msg) m
      | Inr (Inr (nSamples, out, m1)) \<Rightarrow>
          let s = select_strategy (is_RowViewer inputs) (is_RowViewer out);
              f = chunk_closure s batch inputs inDim outDim;
              st = ParallelFor P nSamples grain sched
          in if s = ShouldntBeHere then Crashed ExplicitPanic
             else case run_calls f (calls st) (out, m1) of
                    Inl (Panic why) \<Rightarrow> Crashed why
                  | Inl (Error msg) \<Rightarrow> Crashed ExplicitPanic
                  | Inr (out', m') \<Rightarrow>
                      if returned st then Returned (Some out') None m' else Waiting)"

definition PredictBatch ::
  "nat \<Rightarrow> nat list \<Rightarrow> ('f::zero) Net \<Rightarrow> 'f matrix \<Rightarrow> 'f matrix option \<Rightarrow> 'f memory
     \<Rightarrow> 'f batch_result" where
  "PredictBatch P sched n inputs outputs m =
     BatchPredict P sched
       \<lparr>b_neurons = neurons n, b_parameters = parameters n,
        b_inputDim = inputDim n, b_outputDim = outputDim n\<rparr>
       inputs outputs (inputDim n) (outputDim n) (grainSize n) m"

text \<open>The fault of a call that panicked.\<close>

definition crashed_with :: "'f batch_result \<Rightarrow> fault option" where
  "crashed_with r = (case r of Crashed why \<Rightarrow> Some why | Waiting \<Rightarrow> None | Returned outs e m \<Rightarrow> None)"

text \<open>The rows a call returned with no error, read from the sink it returned.\<close>

definition returned_rows :: "'f batch_result \<Rightarrow> 'f list list option" where
  "returned_rows r =
     (case r of
        Crashed why \<Rightarrow> None
      | Waiting \<Rightarrow> None
      | Returned outs e m \<Rightarrow>
          (case (outs, e) of
             (Some (SosMatrix rows), None) \<Rightarrow> Some (map (contents m) rows)
           | (Some (CopyMatrix c rows), None) \<Rightarrow> Some rows
           | _ \<Rightarrow> None))"

definition example_batch :: "int batchPredictor" where
  "example_batch =
     \<lparr>b_neurons = example_neurons, b_parameters = example_parameters,
      b_inputDim = 2, b_outputDim = 1\<rparr>"

section \<open>The rows of a batch\<close>

text \<open>
  What the batch needs of its rows, all of them allocated below \<open>B\<close>: as many output
  rows as input rows, of the declared widths, the output rows overlapping neither each
  other nor an input row.
\<close>

definition rows_ok :: "('f, 'z) Net_scheme \<Rightarrow> slice list \<Rightarrow> slice list \<Rightarrow> nat \<Rightarrow> bool" where
  "rows_ok n ins outs B =
     (length outs = length ins
      \<and> (\<forall>r \<in> set ins. int (len r) = inputDim n \<and> ptr r + len r \<le> B)
      \<and> (\<forall>r \<in> set outs. int (len r) = outputDim n \<and> ptr r + len r \<le> B)
      \<and> (\<forall>i<length outs. \<forall>j<length outs. i \<noteq> j \<longrightarrow> region (outs ! i) \<inter> region (outs ! j) = {})
      \<and> (\<forall>r \<in> set ins. \<forall>out \<in> set outs. region r \<inter> region out = {}))"

text \<open>
  The state of the memory while the calls run, against the memory \<open>m0\<close> they started
  from: nothing below \<open>B\<close> has changed outside the output rows, and each row of \<open>D\<close> holds
  the values of the last layer for its input row.
\<close>

definition rows_done ::
  "('f, 'z) Net_scheme \<Rightarrow> slice list \<Rightarrow> slice list \<Rightarrow> nat \<Rightarrow> 'f memory \<Rightarrow> nat set \<Rightarrow> 'f memory \<Rightarrow> bool"
where
  "rows_done n ins outs B m0 D M =
     (B \<le> brk M
      \<and> (\<forall>a<B. a \<notin> (\<Union>r \<in> set outs. region r) \<longrightarrow> cells M a = cells m0 a)
      \<and> (\<forall>i \<in> D. i < length outs
             \<and> (\<exists>yss. layer_values (neurons n) (parameters n) (contents m0 (ins ! i)) = Inr yss
                      \<and> contents M (outs ! i) = last yss)))"

section \<open>Wrap-around arithmetic\<close>

lemma i64_cong:
  assumes "a mod 18446744073709551616 = b mod 18446744073709551616"
  shows "i64 a = i64 b"
proof -
  have "(a + 9223372036854775808) mod 18446744073709551616
      = (b + 9223372036854775808) mod 18446744073709551616"
    using assms by (rule mod_add_cong) simp
  then show ?thesis by (simp only: i64_def)
qed

lemma i64_mod: "i64 x mod 18446744073709551616 = x mod 18446744073709551616"
proof -
  have "i64 x mod 18446744073709551616
      = ((x + 9223372036854775808) mod 18446744073709551616 - 9223372036854775808)
          mod 18446744073709551616"
    by (simp only: i64_def)
  also have "\<dots> = (x + 9223372036854775808 - 9223372036854775808) mod 18446744073709551616"
    by (rule mod_diff_left_eq)
  finally show ?thesis by simp
qed

text \<open>The start a worker computes is the counter's value before its own addition, read as
  a signed integer.\<close>

lemma i64_u64_cancel: "i64 (i64 (u64 (a + u64 g)) - g) = i64 a"
proof (rule i64_cong)
  have "(i64 (u64 (a + u64 g)) - g) mod 18446744073709551616
      = (i64 (u64 (a + u64 g)) mod 18446744073709551616 - g) mod 18446744073709551616"
    by (simp only: mod_diff_left_eq)
  also have "\<dots> = ((a + g mod 18446744073709551616) mod 18446744073709551616 - g)
                      mod 18446744073709551616"
    by (simp only: i64_mod u64_def mod_mod_trivial)
  also have "\<dots> = (a + g mod 18446744073709551616 - g) mod 18446744073709551616"
    by (simp only: mod_diff_left_eq)
  also have "\<dots> = (g mod 18446744073709551616 + (a - g)) mod 18446744073709551616"
    by (simp only: algebra_simps)
  also have "\<dots> = (g + (a - g)) mod 18446744073709551616"
    by (simp only: mod_add_left_eq)
  finally show "(i64 (u64 (a + u64 g)) - g) mod 18446744073709551616
      = a mod 18446744073709551616"
    by simp
qed

lemma i64_id: "- 9223372036854775808 \<le> x \<Longrightarrow> x < 9223372036854775808 \<Longrightarrow> i64 x = x"
  unfolding i64_def by simp

lemma u64_id: "0 \<le> x \<Longrightarrow> x < 18446744073709551616 \<Longrightarrow> u64 x = x"
  unfolding u64_def by simp

lemma int_le_div_iff:
  fixes a b g :: int
  assumes g: "0 < g"
  shows "(a \<le> b div g) = (a * g \<le> b)"
proof
  assume "a \<le> b div g"
  then have "a * g \<le> (b div g) * g" using g by (simp add: mult_right_mono)
  also have "\<dots> \<le> b"
  proof -
    have "b = (b div g) * g + b mod g" by simp
    moreover have "0 \<le> b mod g" using g by simp
    ultimately show ?thesis by linarith
  qed
  finally show "a * g \<le> b" .
next
  assume h: "a * g \<le> b"
  have "b < (b div g + 1) * g"
  proof -
    have e: "(b div g) * g + b mod g = b" by simp
    have "b mod g < g" using g by simp
    with e have "b < (b div g) * g + g" by linarith
    then show ?thesis by (simp add: algebra_simps)
  qed
  with h have "a * g < (b div g + 1) * g" by simp
  then have "a < b div g + 1" using g by (simp add: mult_less_cancel_right)
  then show "a \<le> b div g" by simp
qed

lemma nchunks_iff:
  assumes "0 \<le> n" "1 \<le> g"
  shows "(int j * g < n) = (j < nchunks n g)"
proof -
  have nn: "0 \<le> (n + g - 1) div g" using assms by (simp add: pos_imp_zdiv_nonneg_iff)
  have "(j < nchunks n g) = (int j + 1 \<le> (n + g - 1) div g)"
    unfolding nchunks_def using nn by linarith
  also have "\<dots> = ((int j + 1) * g \<le> n + g - 1)"
    using assms by (simp add: int_le_div_iff)
  also have "\<dots> = (int j * g < n)" by (simp add: algebra_simps) linarith
  finally show ?thesis by simp
qed

lemma count_False_less: "p < length xs \<Longrightarrow> xs ! p \<Longrightarrow> count_list xs False < length xs"
proof (induction xs arbitrary: p)
  case Nil then show ?case by simp
next
  case (Cons x xs)
  have le: "count_list xs False \<le> length xs" by (rule count_le_length)
  show ?case
  proof (cases p)
    case 0 with Cons.prems le show ?thesis by simp
  next
    case (Suc q)
    with Cons.prems have "count_list xs False < length xs" by (intro Cons.IH) simp_all
    then show ?thesis by simp
  qed
qed

lemma count_False_update:
  "p < length xs \<Longrightarrow> xs ! p \<Longrightarrow> count_list (xs[p := False]) False = Suc (count_list xs False)"
proof (induction xs arbitrary: p)
  case Nil then show ?case by simp
next
  case (Cons x xs)
  show ?case
  proof (cases p)
    case 0 with Cons.prems show ?thesis by simp
  next
    case (Suc q)
    with Cons.prems have "count_list (xs[q := False]) False = Suc (count_list xs False)"
      by (intro Cons.IH) simp_all
    with Suc show ?thesis by simp
  qed
qed


lemma pf_inv_init: "pf_inv P n g (ParallelFor_init P)"
  by (simp add: pf_inv_def ParallelFor_init_def ndone_def)

lemma claimed_below:
  assumes n: "0 \<le> n" and g: "1 \<le> g" and c: "c \<le> nchunks n g"
  shows "int c * g < n + g"
proof (cases c)
  case 0 with n g show ?thesis by simp
next
  case (Suc c')
  with c have "c' < nchunks n g" by simp
  then have "int c' * g < n" using n g by (simp add: nchunks_iff)
  with Suc show ?thesis by (simp add: algebra_simps)
qed

lemma worker_iteration_eq:
  "worker_iteration n g p st =
     (if p < length (running st) \<and> running st ! p then
        if n \<le> i64 (idx st)
        then st\<lparr>idx := u64 (idx st + u64 g), running := (running st)[p := False]\<rparr>
        else st\<lparr>idx := u64 (idx st + u64 g),
                calls := calls st @ [(i64 (idx st),
                   if n < i64 (i64 (idx st) + g) then n else i64 (i64 (idx st) + g))]\<rparr>
      else st)"
  by (simp add: worker_iteration_def Let_def AddUint64_def i64_u64_cancel)

lemma pf_inv_step:
  assumes n: "0 \<le> n" and g: "1 \<le> g" and bound: "n + int P * g \<le> 9223372036854775808"
    and inv: "pf_inv P n g st"
  shows "pf_inv P n g (worker_iteration n g p st)"
proof (cases "p < length (running st) \<and> running st ! p")
  case False
  then show ?thesis using inv by (auto simp add: worker_iteration_eq)
next
  case True
  define c where "c = length (calls st)"
  define d where "d = ndone st"
  from inv have len: "length (running st) = P"
    and idx: "idx st = (int c + int d) * g"
    and cs: "calls st = map (chunk n g) [0..<c]"
    and cK: "c \<le> nchunks n g"
    and dK: "0 < d \<longrightarrow> c = nchunks n g"
    by (simp_all add: pf_inv_def c_def d_def)
  from True have "count_list (running st) False < length (running st)"
    by (intro count_False_less [of p]) simp_all
  then have dP: "d < P" by (simp add: d_def ndone_def len)
  have P1: "1 \<le> int P" using dP by simp
  have "int c * g < n + g" using n g cK by (rule claimed_below)
  moreover have "(int d + 1) * g \<le> int P * g"
    using dP g by (intro mult_right_mono) simp_all
  ultimately have "(int c + int d) * g < n + int P * g" by (simp add: algebra_simps)
  with bound have hi: "idx st < 9223372036854775808" by (simp add: idx)
  have lo: "0 \<le> idx st" using g by (simp add: idx)
  have start: "i64 (idx st) = idx st" using lo hi by (intro i64_id) simp_all
  have "g \<le> int P * g" using P1 g by (simp add: mult_le_cancel_right1)
  with bound n have ghi: "g \<le> 9223372036854775808" by linarith
  have ug: "u64 g = g" using g ghi by (intro u64_id) simp_all
  have nidx: "u64 (idx st + u64 g) = idx st + g"
    unfolding ug using lo hi g ghi by (intro u64_id) simp_all
  show ?thesis
  proof (cases "n \<le> idx st")
    case exit: True
    have "\<not> (int (c + d) * g < n)" using exit by (simp add: idx)
    then have "\<not> (c + d < nchunks n g)" using nchunks_iff [OF n g, of "c + d"] by simp
    with cK dK have cK': "c = nchunks n g" by (cases "d = 0") simp_all
    have st': "worker_iteration n g p st
        = st\<lparr>idx := idx st + g, running := (running st)[p := False]\<rparr>"
      using True exit by (simp add: worker_iteration_eq start nidx)
    have d': "ndone (worker_iteration n g p st) = Suc d"
      unfolding st' ndone_def d_def using True by (simp add: count_False_update)
    show ?thesis
      unfolding pf_inv_def d' unfolding st'
      using len cs cK cK' by (simp add: idx c_def [symmetric] algebra_simps)
  next
    case go: False
    then have "int (c + d) * g < n" by (simp add: idx)
    then have lt: "c + d < nchunks n g" using nchunks_iff [OF n g, of "c + d"] by simp
    with dK have d0: "d = 0" by (cases "d = 0") simp_all
    from lt d0 have cK': "Suc c \<le> nchunks n g" by simp
    have idxc: "idx st = int c * g" by (simp add: idx d0)
    have "n + g \<le> n + int P * g" using P1 g by (simp add: mult_le_cancel_right1)
    with go bound have "idx st + g < 9223372036854775808" by linarith
    then have e: "i64 (idx st + g) = idx st + g" using lo g by (intro i64_id) simp_all
    have ch: "(idx st, if n < idx st + g then n else idx st + g) = chunk n g c"
      by (auto simp add: chunk_def idxc)
    have "worker_iteration n g p st
        = st\<lparr>idx := idx st + g,
              calls := calls st @ [(idx st, if n < idx st + g then n else idx st + g)]\<rparr>"
      using True go by (simp add: worker_iteration_eq start nidx e)
    then have st': "worker_iteration n g p st
        = st\<lparr>idx := idx st + g, calls := calls st @ [chunk n g c]\<rparr>"
      by (simp only: ch)
    have d': "ndone (worker_iteration n g p st) = 0"
      unfolding st' ndone_def using d0 by (simp add: d_def ndone_def)
    show ?thesis
      unfolding pf_inv_def d' unfolding st'
      using len cs cK' by (simp add: idxc c_def [symmetric] algebra_simps)
  qed
qed

lemma ParallelFor_Nil: "ParallelFor P n g [] = ParallelFor_init P"
  by (simp add: ParallelFor_def)

lemma ParallelFor_snoc:
  "ParallelFor P n g (sched @ [p]) = worker_iteration n g p (ParallelFor P n g sched)"
  by (simp add: ParallelFor_def)

lemma pf_inv_run:
  assumes "0 \<le> n" "1 \<le> g" "n + int P * g \<le> 9223372036854775808"
  shows "pf_inv P n g (ParallelFor P n g sched)"
proof (induction sched rule: rev_induct)
  case Nil
  show ?case by (simp add: ParallelFor_Nil pf_inv_init)
next
  case (snoc p sched)
  then show ?case unfolding ParallelFor_snoc by (intro pf_inv_step assms)
qed


lemma length_running: "length (running (worker_iteration n g p st)) = length (running st)"
  by (simp add: worker_iteration_eq)

lemma length_running_run: "length (running (ParallelFor P n g sched)) = P"
  by (induction sched rule: rev_induct)
     (simp_all add: ParallelFor_Nil ParallelFor_snoc length_running ParallelFor_init_def)

lemma turns_le_calls:
  "p < P \<Longrightarrow> running (ParallelFor P n g sched) ! p
     \<Longrightarrow> count_list sched p \<le> length (calls (ParallelFor P n g sched))"
proof (induction sched rule: rev_induct)
  case Nil
  then show ?case by simp
next
  case (snoc q sched)
  let ?st = "ParallelFor P n g sched"
  have len: "length (running ?st) = P" by (rule length_running_run)
  from snoc.prems have r': "running (worker_iteration n g q ?st) ! p"
    by (simp add: ParallelFor_snoc)
  then have r: "running ?st ! p"
    using snoc.prems(1) len by (auto simp add: worker_iteration_eq nth_list_update split: if_splits)
  then have ih: "count_list sched p \<le> length (calls ?st)" using snoc by simp
  show ?case
  proof (cases "q = p")
    case True
    with r r' snoc.prems(1) len
    have "length (calls (worker_iteration n g q ?st)) = Suc (length (calls ?st))"
      by (auto simp add: worker_iteration_eq split: if_splits)
    with ih True show ?thesis by (simp add: ParallelFor_snoc)
  next
    case False
    have "length (calls ?st) \<le> length (calls (worker_iteration n g q ?st))"
      by (simp add: worker_iteration_eq)
    with ih False show ?thesis by (simp add: ParallelFor_snoc)
  qed
qed

lemma worker_exits:
  assumes "0 \<le> n" "1 \<le> g" "n + int P * g \<le> 9223372036854775808"
    and p: "p < P" and turns: "nchunks n g < count_list sched p"
  shows "\<not> running (ParallelFor P n g sched) ! p"
proof
  assume "running (ParallelFor P n g sched) ! p"
  with p have "count_list sched p \<le> length (calls (ParallelFor P n g sched))"
    by (rule turns_le_calls)
  moreover have "length (calls (ParallelFor P n g sched)) \<le> nchunks n g"
    using pf_inv_run [OF assms(1-3), of sched] by (simp add: pf_inv_def)
  ultimately show False using turns by simp
qed

lemma all_exit:
  assumes "0 \<le> n" "1 \<le> g" "n + int P * g \<le> 9223372036854775808"
    and turns: "\<forall>p<P. nchunks n g < count_list sched p"
  shows "returned (ParallelFor P n g sched)"
proof -
  let ?st = "ParallelFor P n g sched"
  have len: "length (running ?st) = P" by (rule length_running_run)
  have "\<not> running ?st ! p" if "p < P" for p
    using assms(1-3) that turns by (intro worker_exits) simp_all
  then have "\<forall>p<length (running ?st). running ?st ! p = False" by (simp add: len)
  then have "True \<notin> set (running ?st)" by (metis in_set_conv_nth)
  then show ?thesis by (simp add: returned_def)
qed







lemma chunks_nonempty:
  assumes n: "0 \<le> n" and g: "1 \<le> g" and j: "j < nchunks n g"
  shows "fst (chunk n g j) < snd (chunk n g j)"
  using nchunks_iff [OF n g, of j] j g by (simp add: chunk_def)


text \<open>With a non-positive grain the claimed starts are \<open>0, grain, 2 * grain, ...\<close>: no
  worker leaves before the counter wraps.\<close>

lemma u64_add_u64: "u64 (u64 a + u64 b) = u64 (a + b)"
  unfolding u64_def by (simp only: mod_add_eq)

lemma i64_u64: "i64 (u64 a) = i64 a"
  by (rule i64_cong) (simp only: u64_def mod_mod_trivial)

lemma stuck_state:
  assumes n: "0 < n" and g: "g \<le> 0"
    and len: "int (length sched) * (- g) \<le> 9223372036854775808"
  shows "running (ParallelFor P n g sched) = replicate P True
       \<and> length (calls (ParallelFor P n g sched)) \<le> length sched
       \<and> idx (ParallelFor P n g sched) = u64 (int (length (calls (ParallelFor P n g sched))) * g)
       \<and> (\<forall>c \<in> set (calls (ParallelFor P n g sched)). fst c \<le> 0)"
  using len
proof (induction sched rule: rev_induct)
  case Nil
  show ?case by (simp add: ParallelFor_Nil ParallelFor_init_def u64_def)
next
  case (snoc p sched)
  let ?st = "ParallelFor P n g sched"
  define k where "k = length (calls ?st)"
  have "int (length sched) * (- g) \<le> int (length (sched @ [p])) * (- g)"
    using g by (intro mult_right_mono) simp_all
  with snoc.prems have len': "int (length sched) * (- g) \<le> 9223372036854775808" by linarith
  with snoc.IH have run: "running ?st = replicate P True"
    and kl: "k \<le> length sched" and idx: "idx ?st = u64 (int k * g)"
    and st: "\<forall>c \<in> set (calls ?st). fst c \<le> 0"
    by (simp_all add: k_def)
  have "int k * (- g) \<le> int (length sched) * (- g)"
    using kl g by (intro mult_right_mono) simp_all
  with len' have lo: "- 9223372036854775808 \<le> int k * g" by simp
  have hi: "int k * g \<le> 0" using g by (simp add: mult_nonneg_nonpos)
  have s: "i64 (idx ?st) = int k * g"
    unfolding idx i64_u64 using lo hi by (intro i64_id) simp_all
  have nidx: "u64 (idx ?st + u64 g) = u64 (int (Suc k) * g)"
    unfolding idx u64_add_u64 by (simp add: algebra_simps)
  show ?case
  proof (cases "p < P")
    case True
    then have "worker_iteration n g p ?st
      = ?st\<lparr>idx := u64 (int (Suc k) * g),
             calls := calls ?st @ [(int k * g,
                if n < i64 (int k * g + g) then n else i64 (int k * g + g))]\<rparr>"
      using n hi by (simp add: worker_iteration_eq run s nidx)
    then show ?thesis
      unfolding ParallelFor_snoc using run kl st hi by (simp add: k_def)
  next
    case False
    then have "worker_iteration n g p ?st = ?st" by (simp add: worker_iteration_eq run)
    then show ?thesis
      unfolding ParallelFor_snoc using run kl st idx by (simp add: k_def)
  qed
qed

section \<open>Claims about ParallelFor\<close>




text \<open>
  C10 (as amended). Under every interleaving of \<open>P\<close> workers:
  with \<open>n \<ge> 0\<close>, \<open>grain \<ge> 1\<close> and \<open>n + P * grain \<le> 2^63\<close>, a worker has left its loop
  once it has had more turns than there are chunks, so \<open>ParallelFor\<close> returns when every
  worker has had that many;
  with \<open>n > 0\<close> and \<open>grain \<le> 0\<close> the claimed starts never advance (they are
  \<open>0, grain, 2 * grain, ... \<le> 0\<close>) and no worker leaves, for as many claims as keep
  \<open>claims * - grain \<le> 2^63\<close>, which for \<open>grain = 0\<close> is for ever;
  the grain size that \<open>setGrainSize\<close> stores at construction is at least 1;
  \<open>HackGrainSize\<close> stores whatever it is given.
\<close>

theorem worker_loop_termination:
  "(0 \<le> n \<and> 1 \<le> grain \<and> n + int P * grain \<le> 9223372036854775808 \<longrightarrow>
      (\<forall>p<P. nchunks n grain < count_list sched p \<longrightarrow>
               \<not> running (ParallelFor P n grain sched) ! p)
      \<and> ((\<forall>p<P. nchunks n grain < count_list sched p) \<longrightarrow>
               returned (ParallelFor P n grain sched)))
   \<and> (0 < n \<and> grain \<le> 0 \<and> int (length sched) * (- grain) \<le> 9223372036854775808 \<longrightarrow>
        running (ParallelFor P n grain sched) = replicate P True
        \<and> (\<forall>c \<in> set (calls (ParallelFor P n grain sched)). fst c \<le> 0))
   \<and> 1 \<le> GrainSize (setGrainSize fl net)
   \<and> GrainSize (HackGrainSize g net) = g"
proof (intro conjI impI allI)
  fix p
  assume "0 \<le> n \<and> 1 \<le> grain \<and> n + int P * grain \<le> 9223372036854775808"
    and "p < P" and "nchunks n grain < count_list sched p"
  then show "\<not> running (ParallelFor P n grain sched) ! p"
    by (intro worker_exits) simp_all
next
  assume "0 \<le> n \<and> 1 \<le> grain \<and> n + int P * grain \<le> 9223372036854775808"
    and "\<forall>p<P. nchunks n grain < count_list sched p"
  then show "returned (ParallelFor P n grain sched)"
    by (intro all_exit) simp_all
next
  assume a: "0 < n \<and> grain \<le> 0 \<and> int (length sched) * (- grain) \<le> 9223372036854775808"
  then have "0 < n" "grain \<le> 0" "int (length sched) * (- grain) \<le> 9223372036854775808"
    by simp_all
  from stuck_state [OF this, of P]
  show "running (ParallelFor P n grain sched) = replicate P True"
    and "\<forall>c \<in> set (calls (ParallelFor P n grain sched)). fst c \<le> 0"
    by simp_all
next
  show "1 \<le> GrainSize (setGrainSize fl net)"
    by (simp add: GrainSize_def setGrainSize_def Let_def)
next
  show "GrainSize (HackGrainSize g net) = g"
    by (simp add: GrainSize_def HackGrainSize_def)
qed

text \<open>Two workers over \<open>n = 3\<close> with grain 2 (two chunks), three turns each; and two
  workers over \<open>n = 1\<close> with grain 0.\<close>

theorem worker_loop_termination_witness:
  "returned (ParallelFor 2 3 2 [0, 1, 0, 1, 0, 1])
   \<and> running (ParallelFor 2 1 0 [0, 1, 1, 0]) = [True, True]
   \<and> calls (ParallelFor 2 1 0 [0, 1, 1, 0]) = [(0, 0), (0, 0), (0, 0), (0, 0)]"
proof -
  have k: "nchunks 3 2 = 2" by (simp add: nchunks_def)
  have t: "\<forall>p<(2::nat). nchunks 3 2 < count_list [0, 1, 0, 1, 0, 1] p"
    unfolding k by (auto simp add: less_Suc_eq numeral_2_eq_2)
  have c: "calls (ParallelFor 2 1 0 [0, 1, 1, 0]) = [(0, 0), (0, 0), (0, 0), (0, 0)]"
    by (simp add: ParallelFor_def ParallelFor_init_def worker_iteration_eq u64_def i64_def
        numeral_2_eq_2)
  have h: "(0::int) \<le> 3 \<and> (1::int) \<le> 2 \<and> 3 + int 2 * 2 \<le> 9223372036854775808"
    by simp
  have h': "(0::int) < 1 \<and> (0::int) \<le> 0
      \<and> int (length [0, 1, 1, 0::nat]) * (- 0) \<le> 9223372036854775808"
    by simp
  have r: "replicate 2 True = [True, True]" by (simp add: numeral_2_eq_2)
  from worker_loop_termination [of 3 2 2 "[0, 1, 0, 1, 0, 1]" undefined undefined undefined] h t
  have "returned (ParallelFor 2 3 2 [0, 1, 0, 1, 0, 1])" by blast
  moreover
  from worker_loop_termination [of 1 0 2 "[0, 1, 1, 0]" undefined undefined undefined] h'
  have "running (ParallelFor 2 1 0 [0, 1, 1, 0]) = replicate 2 True" by blast
  ultimately show ?thesis using c r by simp
qed

text \<open>
  Where C10 as stated fails: \<open>grain = 2^62 \<ge> 1\<close> and \<open>n = 2^62 + 1\<close>. The counter
  cycles through \<open>0, 2^62, 2^63, 3 * 2^62\<close>, which read as \<open>int\<close> are \<open>0, 2^62, -2^63,
  -2^62\<close>, all below \<open>n\<close>: the worker never leaves its loop.
\<close>

theorem worker_loop_termination_counterexample:
  "\<forall>sched. running (ParallelFor (Suc 0) 4611686018427387905 4611686018427387904 sched) = [True]
         \<and> idx (ParallelFor (Suc 0) 4611686018427387905 4611686018427387904 sched)
            \<in> {0, 4611686018427387904, 9223372036854775808, 13835058055282163712}"
proof
  fix sched
  show "running (ParallelFor (Suc 0) 4611686018427387905 4611686018427387904 sched) = [True]
      \<and> idx (ParallelFor (Suc 0) 4611686018427387905 4611686018427387904 sched)
         \<in> {0, 4611686018427387904, 9223372036854775808, 13835058055282163712}"
  proof (induction sched rule: rev_induct)
    case Nil
    show ?case by (simp add: ParallelFor_Nil ParallelFor_init_def)
  next
    case (snoc p sched)
    then show ?case
      unfolding ParallelFor_snoc by (auto simp add: worker_iteration_eq u64_def i64_def)
  qed
qed

section \<open>Claims about construction\<close>







text \<open>
  The width of the hidden layers is not tested: the third test of \<open>NewSimpleTrainer\<close>
  looks at \<open>inputDim\<close> again. A negative width reaches \<open>make\<close> and panics; a width of 0
  with no hidden layer builds a network.
\<close>

lemma NewSimpleTrainer_width_unchecked:
  "NewSimpleTrainer (\<lambda>x. x) (\<lambda>x. x) 1 1 1 (- 1) (Linear_Activate :: int \<Rightarrow> int)
     = Inl (Panic MakeSliceLen)
   \<and> map_sum id (\<lambda>n. (inputDim n, outputDim n, parameters n))
       (NewSimpleTrainer (\<lambda>x. x) (\<lambda>x. x) 1 1 0 0 (Linear_Activate :: int \<Rightarrow> int))
     = Inr (1, 1, [[[0, 0]]])"
proof
  show "NewSimpleTrainer (\<lambda>x. x) (\<lambda>x. x) 1 1 1 (- 1) (Linear_Activate :: int \<Rightarrow> int)
     = Inl (Panic MakeSliceLen)"
    by (simp add: NewSimpleTrainer_def i64_def makeslice_panics_def maxAlloc_def)
  have "NewSimpleTrainer (\<lambda>x. x) (\<lambda>x. x) 1 1 0 0 (Linear_Activate :: int \<Rightarrow> int)
      = NewTrainer (\<lambda>x. x) 1 1 [[SumNeuron Linear_Activate]]"
    by (simp add: NewSimpleTrainer_def i64_def makeslice_panics_def maxAlloc_def)
  then show "map_sum id (\<lambda>n. (inputDim n, outputDim n, parameters n))
       (NewSimpleTrainer (\<lambda>x. x) (\<lambda>x. x) 1 1 0 0 (Linear_Activate :: int \<Rightarrow> int))
     = Inr (1, 1, [[[0, 0]]])"
    by (simp add: NewTrainer_def SumNeuron_def make_values_def i64_def setGrainSize_def
        Let_def numeral_2_eq_2 makeslice_panics_def maxAlloc_def)
qed

section \<open>The default grain size\<close>

text \<open>Each rounding moves a positive value by at most one part in \<open>2^53\<close>.\<close>

lemma fl_bounds:
  assumes R: "rounds_float64 fl" and y: "1 / 2 ^ 64 \<le> y" "y \<le> 2 ^ 64"
  shows "y * (1 - 1 / 2 ^ 53) \<le> fl y" and "fl y \<le> y * (1 + 1 / 2 ^ 53)"
proof -
  have y0: "0 < y" using y(1) by (rule less_le_trans [rotated]) simp
  then have "\<bar>y\<bar> = y" by simp
  with R y have "\<bar>fl y - y\<bar> \<le> y / 2 ^ 53" unfolding rounds_float64_def by metis
  then have "y - y / 2 ^ 53 \<le> fl y" "fl y \<le> y + y / 2 ^ 53" by linarith+
  then show "y * (1 - 1 / 2 ^ 53) \<le> fl y" and "fl y \<le> y * (1 + 1 / 2 ^ 53)"
    by (simp_all add: algebra_simps)
qed

text \<open>
  \<open>1000000 / (7 * n)\<close> is never an integer, and is at least \<open>1 / (7 * n)\<close> away from
  one: a value whose product with \<open>7 * n\<close> is within \<open>1/2\<close> of \<open>1000000\<close> has the same
  ceiling.
\<close>

lemma ceiling_stable:
  fixes x :: real and n :: int
  assumes n: "1 \<le> n"
    and lo: "1000000 - 1 / 2 \<le> x * real_of_int (7 * n)"
    and hi: "x * real_of_int (7 * n) \<le> 1000000 + 1 / 2"
  shows "\<lceil>x\<rceil> = 1000000 div (7 * n) + 1"
proof -
  define m where "m = 7 * n"
  define q where "q = 1000000 div m"
  define s where "s = 1000000 mod m"
  have m0: "0 < m" using n by (simp add: m_def)
  have e: "q * m + s = 1000000" by (simp add: q_def s_def)
  have s_lt: "s < m" and s_ge: "0 \<le> s" using m0 by (simp_all add: s_def)
  have "s \<noteq> 0"
  proof
    assume "s = 0"
    then have "m dvd 1000000" by (simp add: s_def dvd_eq_mod_eq_0)
    moreover have "7 dvd m" by (simp add: m_def)
    ultimately have "(7::int) dvd 1000000" by (rule dvd_trans [rotated])
    then show False by simp
  qed
  with s_ge s_lt have s1: "1 \<le> s" "s \<le> m - 1" by simp_all
  define xm where "xm = x * real_of_int m"
  define qm where "qm = real_of_int q * real_of_int m"
  have er: "qm + real_of_int s = 1000000"
    unfolding qm_def using e by (metis of_int_add of_int_mult of_int_numeral)
  have sr: "1 \<le> real_of_int s" "real_of_int s \<le> real_of_int m - 1"
    using s1 by linarith+
  have lo': "1000000 - 1 / 2 \<le> xm" and hi': "xm \<le> 1000000 + 1 / 2"
    using lo hi by (simp_all add: xm_def m_def)
  have mr: "0 < real_of_int m" using m0 by simp
  have "qm < xm" using lo' er sr by linarith
  then have a: "real_of_int q < x" unfolding qm_def xm_def using mr by simp
  have "xm < qm + real_of_int m" using hi' er sr by linarith
  then have "xm < (real_of_int q + 1) * real_of_int m" by (simp add: qm_def algebra_simps)
  then have b: "x < real_of_int q + 1" unfolding xm_def using mr by simp
  have "\<lceil>x\<rceil> = q + 1" using a b by (intro ceiling_unique) simp_all
  then show ?thesis by (simp add: q_def m_def)
qed

text \<open>The four roundings of \<open>setGrainSize\<close> keep the quotient that close.\<close>

lemma float_product:
  assumes R: "rounds_float64 fl" and n: "1 \<le> n" "n < 9223372036854775808"
  defines "d \<equiv> fl (fl 0.7 * fl (real_of_int n))"
  defines "x \<equiv> fl (100000 / d)"
  shows "d \<noteq> 0" and "1000000 - 1 / 2 \<le> x * real_of_int (7 * n)"
    and "x * real_of_int (7 * n) \<le> 1000000 + 1 / 2"
proof -
  define r where "r = real_of_int n"
  define lo hi :: real where "lo = 1 - 1 / 2 ^ 53" and "hi = 1 + 1 / 2 ^ 53"

  have lo: "0 < lo" "lo \<le> 1" "9 / 10 \<le> lo" and hi: "1 \<le> hi" "hi \<le> 11 / 10"
    by (simp_all add: lo_def hi_def)
  have r: "1 \<le> r" "r \<le> 2 ^ 63" using n by (simp_all add: r_def)
  define c where "c = fl 0.7"
  define a where "a = fl r"
  have small: "1 / 2 ^ 64 \<le> (2 / 5 :: real)" and big: "(2::real) ^ 63 \<le> 2 ^ 64" by simp_all
  have cr: "1 / 2 ^ 64 \<le> (0.7::real)" "(0.7::real) \<le> 2 ^ 64" by simp_all
  have c: "0.7 * lo \<le> c" "c \<le> 0.7 * hi"
    unfolding c_def lo_def hi_def by (rule fl_bounds [OF R cr])+
  have rr: "1 / 2 ^ 64 \<le> r" "r \<le> 2 ^ 64" using r small big by linarith+
  have a: "r * lo \<le> a" "a \<le> r * hi"
    unfolding a_def lo_def hi_def by (rule fl_bounds [OF R rr])+
  have c0: "0 \<le> c" using c(1) lo by simp
  have a0: "0 \<le> a"
  proof -
    have "0 \<le> r * lo" using r lo by simp
    with a(1) show ?thesis by simp
  qed
  have p_lo: "(0.7 * lo) * (r * lo) \<le> c * a"
    using c(1) a(1) lo r by (intro mult_mono) simp_all
  have p_hi: "c * a \<le> (0.7 * hi) * (r * hi)"
    using c(2) a(2) c0 a0 hi r by (intro mult_mono) simp_all
  have "(1 / 2 :: real) \<le> (0.7 * (9 / 10)) * (1 * (9 / 10))" by simp
  also have "\<dots> \<le> (0.7 * lo) * (r * lo)"
    using lo r by (intro mult_mono) simp_all
  also note p_lo
  finally have p1: "1 / 2 \<le> c * a" .
  note p_hi
  also have "(0.7 * hi) * (r * hi) \<le> (0.7 * (11 / 10)) * (2 ^ 63 * (11 / 10))"
    using hi r by (intro mult_mono) simp_all
  also have "\<dots> \<le> (2::real) ^ 63" by simp
  finally have p2: "c * a \<le> 2 ^ 63" .
  have pr: "1 / 2 ^ 64 \<le> c * a" "c * a \<le> 2 ^ 64" using p1 p2 small big by linarith+
  have d_eq: "d = fl (c * a)" by (simp add: d_def c_def a_def r_def)
  have d: "(c * a) * lo \<le> d" "d \<le> (c * a) * hi"
    unfolding d_eq lo_def hi_def by (rule fl_bounds [OF R pr])+
  have "((0.7 * lo) * (r * lo)) * lo \<le> (c * a) * lo"
    using p_lo lo by (intro mult_right_mono) simp_all
  with d(1) have dlo: "0.7 * r * (lo * lo * lo) \<le> d" by (simp add: algebra_simps)
  have "(c * a) * hi \<le> ((0.7 * hi) * (r * hi)) * hi"
    using p_hi hi by (intro mult_right_mono) simp_all
  with d(2) have dhi: "d \<le> 0.7 * r * (hi * hi * hi)" by (simp add: algebra_simps)
  have "(2 / 5 :: real) \<le> (1 / 2) * (9 / 10)" by simp
  also have "\<dots> \<le> (c * a) * lo" using p1 lo by (intro mult_mono) simp_all
  also note d(1)
  finally have d1: "2 / 5 \<le> d" .
  note d(2)
  also have "(c * a) * hi \<le> 2 ^ 63 * (11 / 10)" using p2 hi p1 by (intro mult_mono) simp_all
  also have "\<dots> \<le> (2::real) ^ 64" by simp
  finally have d2: "d \<le> 2 ^ 64" .
  have q1: "100000 / d \<le> 100000 / (2 / 5)" using d1 by (intro divide_left_mono) simp_all
  have q2: "100000 / 2 ^ 64 \<le> 100000 / d" using d1 d2 by (intro divide_left_mono) simp_all
  have "1 / 2 ^ 64 \<le> (100000::real) / 2 ^ 64" by simp
  also note q2
  finally have q3: "1 / 2 ^ 64 \<le> 100000 / d" .
  note q1
  also have "100000 / (2 / 5) \<le> (2::real) ^ 64" by simp
  finally have q4: "100000 / d \<le> 2 ^ 64" .
  have xb: "(100000 / d) * lo \<le> x" "x \<le> (100000 / d) * hi"
    unfolding x_def lo_def hi_def by (rule fl_bounds [OF R q3 q4])+

  define t where "t = 0.7 * r"
  define lo3 hi3 where "lo3 = lo * lo * lo" and "hi3 = hi * hi * hi"
  have ch1: "t * lo3 \<le> d" and ch2: "d \<le> t * hi3"
    using dlo dhi by (simp_all add: t_def lo3_def hi3_def)
  have t0: "0 < t" using r by (simp add: t_def)
  have l3: "0 < lo3" by (simp add: lo3_def lo_def)
  have h3: "0 < hi3" by (simp add: hi3_def hi_def)
  have l0: "0 < lo" and h0: "0 < hi" by (simp_all add: lo_def hi_def)
  have d0: "0 < d" using d1 by simp
  then show "d \<noteq> 0" by simp
  have q0: "0 \<le> 100000 / d" using d0 by simp
  have "0 \<le> (100000 / d) * lo" using q0 l0 by simp
  with xb(1) have x0: "0 \<le> x" by linarith
  have "x * d \<le> ((100000 / d) * hi) * d" using xb(2) d0 by (intro mult_right_mono) simp_all
  also have "\<dots> = 100000 * hi" using d0 by simp
  finally have xd_hi: "x * d \<le> 100000 * hi" .
  have "((100000 / d) * lo) * d \<le> x * d" using xb(1) d0 by (intro mult_right_mono) simp_all
  moreover have "((100000 / d) * lo) * d = 100000 * lo" using d0 by simp
  ultimately have xd_lo: "100000 * lo \<le> x * d" by simp
  have "x * (t * lo3) \<le> x * d" using ch1 x0 by (intro mult_left_mono)
  with xd_hi have "(x * t) * lo3 \<le> 100000 * hi" by (simp add: mult.assoc)
  then have "x * t \<le> 100000 * hi / lo3" using l3 by (simp add: pos_le_divide_eq)
  also have "\<dots> \<le> 100000 + 1 / 20" by (simp add: hi_def lo3_def lo_def)
  finally have up: "x * t \<le> 100000 + 1 / 20" .
  have "x * d \<le> x * (t * hi3)" using ch2 x0 by (intro mult_left_mono)
  with xd_lo have "100000 * lo \<le> (x * t) * hi3" by (simp add: mult.assoc)
  then have "100000 * lo / hi3 \<le> x * t" using h3 by (simp add: pos_divide_le_eq)
  moreover have "100000 - 1 / 20 \<le> 100000 * lo / hi3" by (simp add: lo_def hi3_def hi_def)
  ultimately have dn: "100000 - 1 / 20 \<le> x * t" by linarith
  have "x * real_of_int (7 * n) = 10 * (x * t)" by (simp add: t_def r_def)
  with up dn show "1000000 - 1 / 2 \<le> x * real_of_int (7 * n)"
    and "x * real_of_int (7 * n) \<le> 1000000 + 1 / 2" by linarith+
qed

lemma exact_product:
  assumes "1 \<le> (n::int)"
  shows "(100000 / (0.7 * real_of_int n)) * real_of_int (7 * n) = 1000000"
  using assms by simp

lemma float_grain:
  assumes R: "rounds_float64 fl" and n: "1 \<le> n" "n < 9223372036854775808"
  shows "fl (fl 0.7 * fl (real_of_int n)) \<noteq> 0"
    and "\<lceil>fl (100000 / fl (fl 0.7 * fl (real_of_int n)))\<rceil> = \<lceil>100000 / (0.7 * real_of_int n)\<rceil>"
    and "1 \<le> \<lceil>100000 / (0.7 * real_of_int n)\<rceil>"
proof -
  show "fl (fl 0.7 * fl (real_of_int n)) \<noteq> 0" using R n by (rule float_product)
  have a: "\<lceil>fl (100000 / fl (fl 0.7 * fl (real_of_int n)))\<rceil> = 1000000 div (7 * n) + 1"
    using n(1) float_product(2,3) [OF R n] by (rule ceiling_stable)
  have "1000000 - 1 / 2 \<le> (100000 / (0.7 * real_of_int n)) * real_of_int (7 * n)"
    and "(100000 / (0.7 * real_of_int n)) * real_of_int (7 * n) \<le> 1000000 + 1 / 2"
    unfolding exact_product [OF n(1)] by simp_all
  with n(1) have b: "\<lceil>100000 / (0.7 * real_of_int n)\<rceil> = 1000000 div (7 * n) + 1"
    by (rule ceiling_stable)
  from a b show "\<lceil>fl (100000 / fl (fl 0.7 * fl (real_of_int n)))\<rceil>
      = \<lceil>100000 / (0.7 * real_of_int n)\<rceil>" by simp
  have "0 \<le> 1000000 div (7 * n)" using n(1) by (simp add: pos_imp_zdiv_nonneg_iff)
  with b show "1 \<le> \<lceil>100000 / (0.7 * real_of_int n)\<rceil>" by simp
qed

lemma sum_lengths_nonneg: "0 \<le> (\<Sum>v\<leftarrow>xs. int (length v))"
  by (rule sum_list_nonneg) auto

lemma totalNeurons_nonneg: "0 \<le> totalNeurons ns"
  unfolding totalNeurons_def by (rule sum_lengths_nonneg)

lemma countParameters_nonneg: "0 \<le> countParameters ps"
  unfolding countParameters_def by (rule sum_list_nonneg) (auto simp add: sum_lengths_nonneg)

lemma count_neurons:
  "0 \<le> s \<Longrightarrow> s + totalNeurons ns < 9223372036854775808
     \<Longrightarrow> foldl (\<lambda>s layer. i64 (s + int (length layer))) s ns = s + totalNeurons ns"
proof (induction ns arbitrary: s)
  case Nil
  then show ?case by (simp add: totalNeurons_def)
next
  case (Cons layer ns)
  have t: "totalNeurons (layer # ns) = int (length layer) + totalNeurons ns"
    by (simp add: totalNeurons_def)
  have nn: "0 \<le> totalNeurons ns" by (rule totalNeurons_nonneg)
  have "i64 (s + int (length layer)) = s + int (length layer)"
    using Cons.prems nn unfolding t by (intro i64_id) linarith+
  moreover have "foldl (\<lambda>s layer. i64 (s + int (length layer))) (s + int (length layer)) ns
      = s + int (length layer) + totalNeurons ns"
    using Cons.prems unfolding t by (intro Cons.IH) linarith+
  ultimately show ?case by (simp add: t)
qed

lemma make_values_length: "make_values k = Inr ps \<Longrightarrow> int (length ps) = k"
  by (auto simp add: make_values_def makeslice_panics_def split: if_splits)

lemma layer_parameters_total:
  "layer_parameters layer nin tot = Inr (lp, tot') \<Longrightarrow> 0 \<le> tot
     \<Longrightarrow> tot + (\<Sum>v\<leftarrow>lp. int (length v)) < 9223372036854775808
     \<Longrightarrow> tot' = tot + (\<Sum>v\<leftarrow>lp. int (length v)) \<and> length lp = length layer"
proof (induction layer arbitrary: tot lp)
  case Nil
  then show ?case by simp
next
  case (Cons neuron rest)
  from Cons.prems(1) obtain ps pss where
    mk: "make_values (NumParameters neuron nin) = Inr ps"
    and rec: "layer_parameters rest nin (i64 (tot + NumParameters neuron nin)) = Inr (pss, tot')"
    and lp: "lp = ps # pss"
    by (auto simp add: Let_def split: sum.splits prod.splits)
  have len: "int (length ps) = NumParameters neuron nin" using mk by (rule make_values_length)
  have nn: "0 \<le> (\<Sum>v\<leftarrow>pss. int (length v))" by (rule sum_lengths_nonneg)
  have b: "tot + int (length ps) + (\<Sum>v\<leftarrow>pss. int (length v)) < 9223372036854775808"
    using Cons.prems(3) by (simp add: lp)
  have "i64 (tot + int (length ps)) = tot + int (length ps)"
    using Cons.prems(2) nn b by (intro i64_id) linarith+
  then have w: "i64 (tot + NumParameters neuron nin) = tot + int (length ps)"
    by (simp only: len)
  have r: "layer_parameters rest nin (tot + int (length ps)) = Inr (pss, tot')"
    using rec by (simp only: w)
  have t0: "0 \<le> tot + int (length ps)" using Cons.prems(2) by simp
  have "tot' = (tot + int (length ps)) + (\<Sum>v\<leftarrow>pss. int (length v)) \<and> length pss = length rest"
    using r t0 b by (rule Cons.IH)
  then show ?case by (simp add: lp)
qed

lemma net_parameters_total:
  "net_parameters ns nin tot = Inr (ps, tot') \<Longrightarrow> 0 \<le> tot
     \<Longrightarrow> tot + countParameters ps < 9223372036854775808
     \<Longrightarrow> tot' = tot + countParameters ps \<and> length ps = length ns"
proof (induction ns arbitrary: nin tot ps)
  case Nil
  then show ?case by (simp add: countParameters_def)
next
  case (Cons layer rest)
  from Cons.prems(1) obtain lp t1 pss where
    l: "layer_parameters layer nin tot = Inr (lp, t1)"
    and rec: "net_parameters rest (int (length layer)) t1 = Inr (pss, tot')"
    and ps: "ps = lp # pss"
    by (auto split: if_splits sum.splits prod.splits)
  have c: "countParameters ps = (\<Sum>v\<leftarrow>lp. int (length v)) + countParameters pss"
    by (simp add: countParameters_def ps)
  have nn: "0 \<le> countParameters pss" "0 \<le> (\<Sum>v\<leftarrow>lp. int (length v))"
    by (simp_all add: countParameters_nonneg sum_lengths_nonneg)
  have b: "tot + (\<Sum>v\<leftarrow>lp. int (length v)) + countParameters pss < 9223372036854775808"
    using Cons.prems(3) by (simp add: c)
  have b1: "tot + (\<Sum>v\<leftarrow>lp. int (length v)) < 9223372036854775808"
    using b nn by linarith
  have t1: "t1 = tot + (\<Sum>v\<leftarrow>lp. int (length v))"
    using layer_parameters_total [OF l Cons.prems(2) b1] by simp
  have t0: "0 \<le> t1" using Cons.prems(2) nn by (simp add: t1)
  have b2: "t1 + countParameters pss < 9223372036854775808" using b by (simp add: t1)
  have "tot' = t1 + countParameters pss \<and> length pss = length rest"
    using rec t0 b2 by (rule Cons.IH)
  moreover have "countParameters (lp # pss) = (\<Sum>v\<leftarrow>lp. int (length v)) + countParameters pss"
    by (simp add: countParameters_def)
  ultimately show ?case by (simp add: t1 ps)
qed

lemma rounds_float64_id: "rounds_float64 (\<lambda>x. x)"
  by (simp add: rounds_float64_def)

lemma setGrainSize_exact:
  assumes R: "rounds_float64 fl"
    and tp: "0 \<le> totalNumParameters n" and ly: "neurons n \<noteq> []"
    and bound: "nOps n < 9223372036854775808"
  shows "grainSize (setGrainSize fl n) = \<lceil>100000 / (0.7 * real_of_int (nOps n))\<rceil>"
    and "1 \<le> \<lceil>100000 / (0.7 * real_of_int (nOps n))\<rceil>"
proof -
  define N where "N = totalNeurons (neurons n)"
  define L where "L = int (length (neurons n))"
  have N0: "0 \<le> N" by (simp add: N_def totalNeurons_nonneg)
  have L1: "1 \<le> L" using ly by (cases "neurons n") (simp_all add: L_def)
  have b: "totalNumParameters n + 70 * N + 200 * L < 9223372036854775808"
    using bound by (simp add: nOps_def N_def L_def)
  have cn: "foldl (\<lambda>s layer. i64 (s + int (length layer))) 0 (neurons n) = N"
    using count_neurons [of 0 "neurons n"] b tp N0 L1 by (simp add: N_def)
  have w1: "i64 (N * 70) = N * 70" using b tp N0 L1 by (intro i64_id) linarith+
  have w2: "i64 (totalNumParameters n + N * 70) = totalNumParameters n + N * 70"
    using b tp N0 L1 by (intro i64_id) linarith+
  have w3: "i64 (200 * L) = 200 * L" using b tp N0 L1 by (intro i64_id) linarith+
  have w4: "i64 (totalNumParameters n + N * 70 + 200 * L) = nOps n"
  proof -
    have "i64 (totalNumParameters n + N * 70 + 200 * L) = totalNumParameters n + N * 70 + 200 * L"
      using b tp N0 L1 by (intro i64_id) linarith+
    then show ?thesis by (simp add: nOps_def N_def L_def)
  qed
  have n1: "1 \<le> nOps n" using tp N0 L1 by (simp add: nOps_def N_def [symmetric] L_def [symmetric])
  note fg = float_grain [OF R n1 bound]
  show "1 \<le> \<lceil>100000 / (0.7 * real_of_int (nOps n))\<rceil>" by (rule fg(3))
  have "grainSize (setGrainSize fl n)
      = (if \<lceil>fl (100000 / fl (fl 0.7 * fl (real_of_int (nOps n))))\<rceil> < 1 then 1
         else \<lceil>fl (100000 / fl (fl 0.7 * fl (real_of_int (nOps n))))\<rceil>)"
    using fg(1) by (simp add: setGrainSize_def Let_def cn w1 w2 w3 w4 L_def [symmetric])
  then show "grainSize (setGrainSize fl n) = \<lceil>100000 / (0.7 * real_of_int (nOps n))\<rceil>"
    using fg(3) unfolding fg(2) by simp
qed

text \<open>
  C8. For a network that \<open>NewTrainer\<close> returns, whose counts fit an \<open>int\<close>, and for every
  rounding \<open>fl\<close> within the \<open>float64\<close> error bound: \<open>nOps\<close> is the number of parameters
  plus 70 times the number of units plus 200 times the number of layers, and the stored
  grain size is \<open>ceil(100000 / (0.7 * nOps))\<close>, which is also that value floored at 1.
  Whatever the network and the rounding, \<open>setGrainSize\<close> stores a grain size of at
  least 1.
\<close>

theorem default_grain_size:
  assumes R: "rounds_float64 fl" and new: "NewTrainer fl inDim outDim ns = Inr net"
    and fits: "countParameters (parameters net) + 70 * totalNeurons ns + 200 * int (length ns)
                 < 9223372036854775808"
  shows "nOps net = countParameters (parameters net) + 70 * totalNeurons ns + 200 * int (length ns)
       \<and> grainSize net = \<lceil>100000 / (0.7 * real_of_int (nOps net))\<rceil>
       \<and> grainSize net = max 1 \<lceil>100000 / (0.7 * real_of_int (nOps net))\<rceil>
       \<and> 1 \<le> grainSize net
       \<and> 1 \<le> grainSize (setGrainSize fl' net')"
proof -
  from new obtain ps tot where ne: "ns \<noteq> []"
    and np: "net_parameters ns inDim 0 = Inr (ps, tot)"
    and net: "net = setGrainSize fl
        \<lparr>inputDim = inDim, outputDim = outDim, totalNumParameters = tot,
         grainSize = 0, neurons = ns, parameters = ps\<rparr>"
    by (auto simp add: NewTrainer_def split: if_splits sum.splits prod.splits)
  let ?n0 = "\<lparr>inputDim = inDim, outputDim = outDim, totalNumParameters = tot,
         grainSize = 0, neurons = ns, parameters = ps\<rparr>"
  have f: "parameters net = ps" "neurons net = ns" "totalNumParameters net = tot"
    by (simp_all add: net setGrainSize_def Let_def)
  have N0: "0 \<le> totalNeurons ns" by (rule totalNeurons_nonneg)
  have "countParameters ps < 9223372036854775808" using fits N0 by (simp add: f)
  then have tot: "tot = countParameters ps"
    using net_parameters_total [OF np, of] by simp
  have nops: "nOps net = countParameters (parameters net) + 70 * totalNeurons ns + 200 * int (length ns)"
    by (simp add: nOps_def f tot)
  have nops0: "nOps ?n0 = nOps net" by (simp add: nOps_def f)
  have "0 \<le> totalNumParameters ?n0" by (simp add: tot countParameters_nonneg)
  moreover have "neurons ?n0 \<noteq> []" using ne by simp
  moreover have "nOps ?n0 < 9223372036854775808" unfolding nops0 nops using fits .
  ultimately have g: "grainSize (setGrainSize fl ?n0) = \<lceil>100000 / (0.7 * real_of_int (nOps ?n0))\<rceil>"
    and g1: "1 \<le> \<lceil>100000 / (0.7 * real_of_int (nOps ?n0))\<rceil>"
    using R by (rule setGrainSize_exact [rotated -3])+
  have g': "grainSize net = \<lceil>100000 / (0.7 * real_of_int (nOps net))\<rceil>"
    using g unfolding nops0 net .
  have g1': "1 \<le> \<lceil>100000 / (0.7 * real_of_int (nOps net))\<rceil>" using g1 unfolding nops0 .
  have "1 \<le> grainSize (setGrainSize fl' net')" by (simp add: setGrainSize_def Let_def)
  with nops g' g1' show ?thesis by (simp add: max_def)
qed

theorem default_grain_size_witness:
  "\<exists>net. NewTrainer (\<lambda>x. x) 2 1
            [[LinearNeuron, LinearNeuron, LinearNeuron], [LinearNeuron :: real Neuron]] = Inr net
         \<and> nOps net = 693 \<and> grainSize net = 207
         \<and> grainSize net = \<lceil>100000 / (0.7 * real_of_int (nOps net))\<rceil>"
proof -
  let ?ns = "[[LinearNeuron, LinearNeuron, LinearNeuron], [LinearNeuron :: real Neuron]]"
  let ?net = "\<lparr>inputDim = 2, outputDim = 1, totalNumParameters = 13, grainSize = 207,
           neurons = ?ns,
           parameters = [[[0, 0, 0], [0, 0, 0], [0, 0, 0]], [[0, 0, 0, 0 :: real]]]\<rparr>"
  have new: "NewTrainer (\<lambda>x. x) 2 1 ?ns = Inr ?net"
    apply (simp add: NewTrainer_def LinearNeuron_def SumNeuron_def make_values_def i64_id
        makeslice_panics_def maxAlloc_def)
    apply (simp add: setGrainSize_def Let_def i64_id)
    apply (simp add: numeral_3_eq_3 numeral_Bit0 [of "num.Bit0 num.One", where ?'a = nat])
    done
  have fits: "countParameters (parameters ?net) + 70 * totalNeurons ?ns + 200 * int (length ?ns)
      < 9223372036854775808"
    by (simp add: countParameters_def totalNeurons_def)
  have n: "nOps ?net = 693" by (simp add: nOps_def totalNeurons_def)
  from default_grain_size [OF rounds_float64_id new fits] n new
  show ?thesis by simp
qed

section \<open>The forward pass on memory\<close>

lemma cells_store: "cells (store m s i v) a = (if a = ptr s + i then v else cells m a)"
  by (simp add: store_def)

lemma brk_store: "brk (store m s i v) = brk m"
  by (simp add: store_def)

lemma contents_cong:
  "len s = len s' \<Longrightarrow> ptr s = ptr s' \<Longrightarrow> (\<forall>a \<in> region s. cells m a = cells m' a)
     \<Longrightarrow> contents m s = contents m' s'"
  by (auto simp add: contents_def region_def)

lemma length_contents: "length (contents m s) = len s"
  by (simp add: contents_def)

lemma holds_contents: "holds m (ptr s) ys \<Longrightarrow> len s = length ys \<Longrightarrow> contents m s = ys"
  by (simp add: holds_def contents_def)

lemma contents_holds: "contents m s = ys \<Longrightarrow> holds m (ptr s) ys"
proof -
  assume c: "contents m s = ys"
  then have l: "length ys = len s" by (auto simp add: contents_def)
  show ?thesis unfolding holds_def l using c by (simp add: contents_def)
qed

lemma holds_nth: "holds m a ys \<Longrightarrow> k < length ys \<Longrightarrow> cells m (a + k) = ys ! k"
  unfolding holds_def by (metis (no_types, lifting) add_0 diff_zero length_upt nth_map nth_upt)

lemma holdsI: "(\<And>k. k < length ys \<Longrightarrow> cells m (a + k) = ys ! k) \<Longrightarrow> holds m a ys"
  unfolding holds_def by (rule nth_equalityI) simp_all

lemma holds_cong:
  "holds m a ys \<Longrightarrow> (\<forall>b \<in> {a ..< a + length ys}. cells m' b = cells m b) \<Longrightarrow> holds m' a ys"
  by (intro holdsI) (simp add: holds_nth)

lemma only_writes_refl: "only_writes S m m"
  by (simp add: only_writes_def)

lemma only_writes_mono: "only_writes S m m' \<Longrightarrow> S \<subseteq> T \<Longrightarrow> only_writes T m m'"
  by (auto simp add: only_writes_def)

lemma only_writes_trans:
  "only_writes S m m1 \<Longrightarrow> only_writes T m1 m2 \<Longrightarrow> only_writes (S \<union> T) m m2"
  by (auto simp add: only_writes_def)

lemma only_writes_cells: "only_writes S m m' \<Longrightarrow> a \<notin> S \<Longrightarrow> cells m' a = cells m a"
  by (simp add: only_writes_def)

lemma only_writes_brk: "only_writes S m m' \<Longrightarrow> brk m' = brk m"
  by (simp add: only_writes_def)

lemma only_writes_contents:
  "only_writes S m m' \<Longrightarrow> region s \<inter> S = {} \<Longrightarrow> contents m' s = contents m s"
  by (rule contents_cong) (auto simp add: only_writes_def)

lemma only_writes_holds:
  "only_writes S m m' \<Longrightarrow> holds m a ys \<Longrightarrow> {a ..< a + length ys} \<inter> S = {}
     \<Longrightarrow> holds m' a ys"
proof -
  assume w: "only_writes S m m'" and h: "holds m a ys" and d: "{a ..< a + length ys} \<inter> S = {}"
  from d have "\<forall>b \<in> {a ..< a + length ys}. b \<notin> S" by blast
  with w have "\<forall>b \<in> {a ..< a + length ys}. cells m' b = cells m b"
    by (simp add: only_writes_def)
  with h show "holds m' a ys" by (rule holds_cong)
qed

lemma length_layer_value_from:
  "layer_value_from i ns ps xs = Inr ys \<Longrightarrow> length ys = length ns"
  by (induction ns arbitrary: i ys) (auto split: if_splits sum.splits)

lemma processLayer_from_correct:
  assumes "layer_value_from i ns ps (contents m input) = Inr ys"
    and "region input \<inter> {ptr output + i ..< ptr output + i + length ns} = {}"
    and "i + length ns \<le> len output"
  shows "\<exists>m'. processLayer_from i input ns ps output m = Inr m'
           \<and> holds m' (ptr output + i) ys
           \<and> only_writes {ptr output + i ..< ptr output + i + length ns} m m'"
  using assms
proof (induction ns arbitrary: i m ys)
  case Nil
  then show ?case by (simp add: holds_def only_writes_refl)
next
  case (Cons unit rest)
  from Cons.prems(1) obtain c ys' where i: "i < length ps"
    and c: "Combine unit (ps ! i) (contents m input) = Inr c"
    and rest: "layer_value_from (Suc i) rest ps (contents m input) = Inr ys'"
    and ys: "ys = Activate unit c # ys'"
    by (auto split: if_splits sum.splits)
  let ?m1 = "store m output i (Activate unit c)"
  have notin: "ptr output + i \<notin> region input" using Cons.prems(2) by auto
  have same: "contents ?m1 input = contents m input"
    by (rule contents_cong) (use notin in \<open>auto simp add: cells_store\<close>)
  have d: "region input \<inter> {ptr output + Suc i ..< ptr output + Suc i + length rest} = {}"
    using Cons.prems(2) by auto
  have l: "Suc i + length rest \<le> len output" using Cons.prems(3) by simp
  from Cons.IH [of "Suc i" ?m1 ys'] rest d l same
  obtain m' where r: "processLayer_from (Suc i) input rest ps output ?m1 = Inr m'"
    and h: "holds m' (ptr output + Suc i) ys'"
    and f: "only_writes {ptr output + Suc i ..< ptr output + Suc i + length rest} ?m1 m'"
    by auto
  have run: "processLayer_from i input (unit # rest) ps output m = Inr m'"
    using i c r Cons.prems(3) by simp
  have first: "cells m' (ptr output + i) = Activate unit c"
    using only_writes_cells [OF f, of "ptr output + i"] by (simp add: cells_store)
  have "holds m' (ptr output + i) ys"
  proof (rule holdsI)
    fix k assume k: "k < length ys"
    show "cells m' (ptr output + i + k) = ys ! k"
    proof (cases k)
      case 0 then show ?thesis using first ys by simp
    next
      case (Suc k')
      with k ys have "k' < length ys'" by simp
      with h have "cells m' (ptr output + Suc i + k') = ys' ! k'" by (rule holds_nth)
      with Suc ys show ?thesis by simp
    qed
  qed
  moreover have "only_writes {ptr output + i ..< ptr output + i + length (unit # rest)} m m'"
    using f by (auto simp add: only_writes_def cells_store brk_store)
  ultimately show ?case using run by blast
qed

lemma processLayer_from_frame:
  "processLayer_from i input ns ps output m = Inr m'
     \<Longrightarrow> only_writes (region output) m m'"
proof (induction ns arbitrary: i m)
  case Nil
  then show ?case by (simp add: only_writes_refl)
next
  case (Cons unit rest)
  from Cons.prems obtain c where i: "i < len output"
    and r: "processLayer_from (Suc i) input rest ps output (store m output i (Activate unit c)) = Inr m'"
    by (auto split: if_splits sum.splits)
  from Cons.IH [OF r] i show ?case
    by (auto simp add: only_writes_def cells_store brk_store region_def)
qed

lemma processLayer_correct:
  assumes "layer_value ns ps (contents m input) = Inr ys"
    and "region input \<inter> {ptr output ..< ptr output + length ns} = {}"
    and "length ns \<le> len output"
  shows "\<exists>m'. processLayer input ns ps output m = Inr m'
           \<and> holds m' (ptr output) ys
           \<and> only_writes {ptr output ..< ptr output + length ns} m m'"
  using processLayer_from_correct [of 0 ns ps m input ys "output"] assms
  by (simp add: processLayer_def layer_value_def)

lemma length_layer_value: "layer_value ns ps xs = Inr ys \<Longrightarrow> length ys = length ns"
  unfolding layer_value_def by (rule length_layer_value_from)

lemma length_layer_values_from:
  "layer_values_from i nss pss xs = Inr yss \<Longrightarrow> length yss = length nss"
  by (induction nss arbitrary: i xs yss) (auto split: if_splits sum.splits)

lemma region_subset_extent: "len s \<le> cap s \<Longrightarrow> region s \<subseteq> extent s"
  by (auto simp add: region_def extent_def)

lemma middle_layers_correct:
  assumes "n = nLayers - 1 - i" and "nLayers \<le> length nss"
    and "layer_values_from i (take n (drop i nss)) pss (contents m tmp) = Inr yss"
    and "\<forall>k. i \<le> k \<and> k < nLayers - 1 \<longrightarrow> length (nss ! k) \<le> cap prev \<and> length (nss ! k) \<le> cap tmp"
    and "extent prev \<inter> extent tmp = {}"
    and "len tmp \<le> cap tmp"
  shows "\<exists>prev' tmp' m'. middle_layers i nLayers nss pss prev tmp m = Inr (prev', tmp', m')
           \<and> contents m' tmp' = (if yss = [] then contents m tmp else last yss)
           \<and> only_writes (extent prev \<union> extent tmp) m m'
           \<and> ptr tmp' = (if even n then ptr tmp else ptr prev)
           \<and> len tmp' \<le> cap tmp'
           \<and> extent tmp' = (if even n then extent tmp else extent prev)"
  using assms
proof (induction n arbitrary: i prev tmp m yss)
  case 0
  then have "\<not> i < nLayers - 1" by simp
  then have "middle_layers i nLayers nss pss prev tmp m = Inr (prev, tmp, m)"
    by (subst middle_layers.simps) simp
  moreover have "yss = []" using "0.prems"(3) by simp
  ultimately show ?case using "0.prems"(6) by (simp add: only_writes_refl)
next
  case (Suc n)
  from Suc.prems(1) have i: "i < nLayers - 1" and n: "n = nLayers - 1 - Suc i" by simp_all
  with Suc.prems(2) have il: "i < length nss" by simp
  have tk: "take (Suc n) (drop i nss) = nss ! i # take n (drop (Suc i) nss)"
    using il by (simp add: Cons_nth_drop_Suc [symmetric])
  from Suc.prems(3) obtain ys yss' where ip: "i < length pss"
    and ys: "layer_value (nss ! i) (pss ! i) (contents m tmp) = Inr ys"
    and rest: "layer_values_from (Suc i) (take n (drop (Suc i) nss)) pss ys = Inr yss'"
    and yss: "yss = ys # yss'"
    unfolding tk by (auto split: if_splits sum.splits)
  have cp: "length (nss ! i) \<le> cap prev" using Suc.prems(4) i by simp
  define tmp1 where "tmp1 = prev\<lparr>len := length (nss ! i)\<rparr>"
  have rs: "reslice prev (length (nss ! i)) = Inr tmp1" using cp by (simp add: reslice_def tmp1_def)
  have t1: "ptr tmp1 = ptr prev" "len tmp1 = length (nss ! i)" "cap tmp1 = cap prev"
    "extent tmp1 = extent prev"
    by (simp_all add: tmp1_def extent_def)
  have "region tmp \<subseteq> extent tmp" using Suc.prems(6) by (rule region_subset_extent)
  moreover have w: "{ptr tmp1 ..< ptr tmp1 + length (nss ! i)} \<subseteq> extent prev"
    using cp by (auto simp add: t1 extent_def)
  ultimately have d: "region tmp \<inter> {ptr tmp1 ..< ptr tmp1 + length (nss ! i)} = {}"
    using Suc.prems(5) by blast
  from processLayer_correct [OF ys d] t1
  obtain m1 where pl: "processLayer tmp (nss ! i) (pss ! i) tmp1 m = Inr m1"
    and h1: "holds m1 (ptr tmp1) ys"
    and f1: "only_writes {ptr tmp1 ..< ptr tmp1 + length (nss ! i)} m m1"
    by auto
  have lys: "length ys = length (nss ! i)" using ys by (rule length_layer_value)
  have c1: "contents m1 tmp1 = ys" using h1 by (rule holds_contents) (simp add: t1 lys)
  have rest': "layer_values_from (Suc i) (take n (drop (Suc i) nss)) pss (contents m1 tmp1) = Inr yss'"
    using rest by (simp add: c1)
  have caps: "\<forall>k. Suc i \<le> k \<and> k < nLayers - 1
      \<longrightarrow> length (nss ! k) \<le> cap tmp \<and> length (nss ! k) \<le> cap tmp1"
    using Suc.prems(4) by (simp add: t1)
  have dj: "extent tmp \<inter> extent tmp1 = {}" using Suc.prems(5) by (auto simp add: t1)
  have lc: "len tmp1 \<le> cap tmp1" using cp by (simp add: t1)
  from Suc.IH [OF n Suc.prems(2) rest' caps dj lc]
  obtain prev' tmp' m' where
    r: "middle_layers (Suc i) nLayers nss pss tmp tmp1 m1 = Inr (prev', tmp', m')"
    and c: "contents m' tmp' = (if yss' = [] then contents m1 tmp1 else last yss')"
    and f: "only_writes (extent tmp \<union> extent tmp1) m1 m'"
    and p: "ptr tmp' = (if even n then ptr tmp1 else ptr tmp)"
    and l: "len tmp' \<le> cap tmp'"
    and e: "extent tmp' = (if even n then extent tmp1 else extent tmp)"
    by blast
  have run: "middle_layers i nLayers nss pss prev tmp m = Inr (prev', tmp', m')"
    using i by (subst middle_layers.simps) (simp add: rs ip pl r)
  have "contents m' tmp' = (if yss = [] then contents m tmp else last yss)"
    using c by (simp add: yss c1)
  moreover have "only_writes (extent prev \<union> extent tmp) m m'"
  proof -
    have "only_writes ({ptr tmp1 ..< ptr tmp1 + length (nss ! i)} \<union> (extent tmp \<union> extent tmp1)) m m'"
      using f1 f by (rule only_writes_trans)
    then show ?thesis by (rule only_writes_mono) (use w in \<open>auto simp add: t1\<close>)
  qed
  moreover have "ptr tmp' = (if even (Suc n) then ptr tmp else ptr prev)" using p by (simp add: t1)
  moreover have "extent tmp' = (if even (Suc n) then extent tmp else extent prev)"
    using e by (simp add: t1)
  ultimately show ?case using run l by blast
qed

lemma layer_values_from_snoc:
  "layer_values_from i (as @ [b]) pss xs = Inr yss
     \<Longrightarrow> \<exists>ys1 yl. layer_values_from i as pss xs = Inr ys1
           \<and> i + length as < length pss
           \<and> layer_value b (pss ! (i + length as)) (if ys1 = [] then xs else last ys1) = Inr yl
           \<and> yss = ys1 @ [yl]"
proof (induction as arbitrary: i xs yss)
  case Nil
  then show ?case by (auto split: if_splits sum.splits)
next
  case (Cons a as)
  from Cons.prems obtain ys yss' where i: "i < length pss"
    and a: "layer_value a (pss ! i) xs = Inr ys"
    and r: "layer_values_from (Suc i) (as @ [b]) pss ys = Inr yss'"
    and y: "yss = ys # yss'"
    by (auto split: if_splits sum.splits)
  from Cons.IH [OF r] obtain ys1 yl where
    "layer_values_from (Suc i) as pss ys = Inr ys1"
    "Suc i + length as < length pss"
    "layer_value b (pss ! (Suc i + length as)) (if ys1 = [] then ys else last ys1) = Inr yl"
    "yss' = ys1 @ [yl]"
    by blast
  then show ?case using i a y by (intro exI [of _ "ys # ys1"] exI [of _ yl]) simp
qed

lemma predict_correct:
  assumes ne: "nss \<noteq> []"
    and pure: "layer_values nss pss (contents m input) = Inr yss"
    and out: "length (last nss) \<le> len output"
    and caps: "\<forall>k. k < length nss - 1 \<longrightarrow> length (nss ! k) \<le> cap prev \<and> length (nss ! k) \<le> cap tmp"
    and d1: "region input \<inter> region output = {}" and d2: "region input \<inter> extent tmp = {}"
    and d3: "extent prev \<inter> extent tmp = {}"
    and d4: "region output \<inter> extent tmp = {}" and d5: "region output \<inter> extent prev = {}"
  shows "\<exists>m'. predict input nss pss prev tmp output m = Inr m'
           \<and> holds m' (ptr output) (last yss)
           \<and> length yss = length nss
           \<and> only_writes (region output \<union> (if length nss = 1 then {} else extent prev \<union> extent tmp)) m m'
           \<and> (2 \<le> length nss \<longrightarrow>
                holds m' (if even (length nss) then ptr tmp else ptr prev) (yss ! (length nss - 2)))"
proof (cases "length nss = 1")
  case True
  then obtain ns where nss: "nss = [ns]" by (cases nss) simp_all
  from pure obtain y where p0: "0 < length pss"
    and y: "layer_value ns (pss ! 0) (contents m input) = Inr y" and yss: "yss = [y]"
    by (auto simp add: nss layer_values_def split: if_splits sum.splits)
  have w: "{ptr output ..< ptr output + length ns} \<subseteq> region output"
    using out by (auto simp add: nss region_def)
  with d1 have d: "region input \<inter> {ptr output ..< ptr output + length ns} = {}" by blast
  have l: "length ns \<le> len output" using out by (simp add: nss)
  from processLayer_correct [OF y d l]
  obtain m' where r: "processLayer input ns (pss ! 0) output m = Inr m'"
    and h: "holds m' (ptr output) y"
    and f: "only_writes {ptr output ..< ptr output + length ns} m m'"
    by blast
  from f w have "only_writes (region output) m m'" by (rule only_writes_mono)
  with r h p0 show ?thesis by (intro exI [of _ m']) (simp add: predict_def nss yss)
next
  case False
  with ne have L2: "2 \<le> length nss" by (cases nss) (simp_all add: Suc_le_eq)
  define L where "L = length nss"
  define mid where "mid = take (L - 2) (drop 1 nss)"
  have split: "nss = (nss ! 0 # mid) @ [last nss]"
  proof -
    have "nss = butlast nss @ [last nss]" using ne by simp
    moreover have "butlast nss = nss ! 0 # mid"
    proof -
      from L2 obtain a list where n: "nss = a # list" and l: "list \<noteq> []"
        by (cases nss) (auto simp add: Suc_le_eq)
      have "butlast list = take (length list - 1) list" by (rule butlast_conv_take)
      then show ?thesis using l by (simp add: n mid_def L_def)
    qed
    ultimately show ?thesis by simp
  qed
  have lm: "length mid = L - 2" using L2 by (simp add: mid_def L_def)
  from pure have "layer_values_from 0 ((nss ! 0 # mid) @ [last nss]) pss (contents m input) = Inr yss"
    unfolding layer_values_def using split by simp
  from layer_values_from_snoc [OF this] obtain ys1 yl where
    h: "layer_values_from 0 (nss ! 0 # mid) pss (contents m input) = Inr ys1"
    and pl0: "0 + length (nss ! 0 # mid) < length pss"
    and fin0: "layer_value (last nss) (pss ! (0 + length (nss ! 0 # mid)))
        (if ys1 = [] then contents m input else last ys1) = Inr yl"
    and yss: "yss = ys1 @ [yl]"
    by blast
  have len1: "0 + length (nss ! 0 # mid) = L - 1" using L2 lm by (simp add: L_def)
  have pl: "L - 1 < length pss" using pl0 unfolding len1 .
  have fin: "layer_value (last nss) (pss ! (L - 1))
      (if ys1 = [] then contents m input else last ys1) = Inr yl"
    using fin0 unfolding len1 .
  from h obtain y0 ymid where p0: "0 < length pss"
    and y0: "layer_value (nss ! 0) (pss ! 0) (contents m input) = Inr y0"
    and ym: "layer_values_from 1 mid pss y0 = Inr ymid"
    and ys1: "ys1 = y0 # ymid"
    by (auto split: if_splits sum.splits)
  have lymid: "length ymid = L - 2" using ym lm by (simp add: length_layer_values_from)
  have c0: "length (nss ! 0) \<le> cap tmp" using caps L2 by simp
  define tmp0 where "tmp0 = tmp\<lparr>len := length (nss ! 0)\<rparr>"
  have rs: "reslice tmp (length (nss ! 0)) = Inr tmp0" using c0 by (simp add: reslice_def tmp0_def)
  have t0: "ptr tmp0 = ptr tmp" "len tmp0 = length (nss ! 0)" "cap tmp0 = cap tmp"
    "extent tmp0 = extent tmp"
    by (simp_all add: tmp0_def extent_def)
  have w0: "{ptr tmp0 ..< ptr tmp0 + length (nss ! 0)} \<subseteq> extent tmp"
    using c0 by (auto simp add: t0 extent_def)
  with d2 have dd: "region input \<inter> {ptr tmp0 ..< ptr tmp0 + length (nss ! 0)} = {}" by blast
  from processLayer_correct [OF y0 dd] t0
  obtain m1 where r1: "processLayer input (nss ! 0) (pss ! 0) tmp0 m = Inr m1"
    and h1: "holds m1 (ptr tmp0) y0"
    and f1: "only_writes {ptr tmp0 ..< ptr tmp0 + length (nss ! 0)} m m1"
    by auto
  have ly0: "length y0 = length (nss ! 0)" using y0 by (rule length_layer_value)
  have ct0: "contents m1 tmp0 = y0" using h1 by (rule holds_contents) (simp add: t0 ly0)
  have nmid: "L - 2 = L - 1 - 1" by simp
  have LL: "L \<le> length nss" by (simp add: L_def)
  have ym': "layer_values_from 1 (take (L - 2) (drop 1 nss)) pss (contents m1 tmp0) = Inr ymid"
    using ym by (simp add: mid_def ct0)
  have caps': "\<forall>k. 1 \<le> k \<and> k < L - 1 \<longrightarrow> length (nss ! k) \<le> cap prev \<and> length (nss ! k) \<le> cap tmp0"
    using caps by (simp add: t0 L_def)
  have dj: "extent prev \<inter> extent tmp0 = {}" using d3 by (simp add: t0)
  have lc: "len tmp0 \<le> cap tmp0" using c0 by (simp add: t0)
  from middle_layers_correct [OF nmid LL ym' caps' dj lc]
  obtain prev' tmp' m2 where
    r2: "middle_layers 1 L nss pss prev tmp0 m1 = Inr (prev', tmp', m2)"
    and c2: "contents m2 tmp' = (if ymid = [] then contents m1 tmp0 else last ymid)"
    and f2: "only_writes (extent prev \<union> extent tmp0) m1 m2"
    and p2: "ptr tmp' = (if even (L - 2) then ptr tmp0 else ptr prev)"
    and l2: "len tmp' \<le> cap tmp'"
    and e2: "extent tmp' = (if even (L - 2) then extent tmp0 else extent prev)"
    by blast
  have c2': "contents m2 tmp' = last ys1" using c2 by (simp add: ys1 ct0)
  have fin': "layer_value (last nss) (pss ! (L - 1)) (contents m2 tmp') = Inr yl"
    using fin by (simp add: ys1 c2')
  have "region tmp' \<subseteq> extent tmp'" using l2 by (rule region_subset_extent)
  moreover have "extent tmp' \<subseteq> extent prev \<union> extent tmp"
    unfolding e2 t0 by (cases "even (L - 2)") simp_all
  ultimately have rt: "region tmp' \<subseteq> extent prev \<union> extent tmp" by blast
  have wo: "{ptr output ..< ptr output + length (last nss)} \<subseteq> region output"
    using out by (auto simp add: region_def)
  have d: "region tmp' \<inter> {ptr output ..< ptr output + length (last nss)} = {}"
    using rt wo d4 d5 by blast
  from processLayer_correct [OF fin' d out]
  obtain m' where r3: "processLayer tmp' (last nss) (pss ! (L - 1)) output m2 = Inr m'"
    and h3: "holds m' (ptr output) yl"
    and f3: "only_writes {ptr output ..< ptr output + length (last nss)} m2 m'"
    by blast
  have lastn: "nss ! (L - 1) = last nss" using ne by (simp add: L_def last_conv_nth)
  have r2': "middle_layers (Suc 0) L nss pss prev tmp0 m1 = Inr (prev', tmp', m2)"
    using r2 by simp
  have r3': "processLayer tmp' (nss ! (L - Suc 0)) (pss ! (L - Suc 0)) output m2 = Inr m'"
    using r3 lastn by simp
  have run: "predict input nss pss prev tmp output m = Inr m'"
    using False L2 p0 pl
    by (simp add: predict_def Let_def rs r1 L_def [symmetric] r2' r3')
  have frame: "only_writes (region output \<union> (extent prev \<union> extent tmp)) m m'"
  proof -
    have "only_writes (({ptr tmp0 ..< ptr tmp0 + length (nss ! 0)} \<union> (extent prev \<union> extent tmp0))
        \<union> {ptr output ..< ptr output + length (last nss)}) m m'"
      using only_writes_trans [OF only_writes_trans [OF f1 f2] f3] .
    moreover have "({ptr tmp0 ..< ptr tmp0 + length (nss ! 0)} \<union> (extent prev \<union> extent tmp0))
        \<union> {ptr output ..< ptr output + length (last nss)}
        \<subseteq> region output \<union> (extent prev \<union> extent tmp)"
      using w0 wo unfolding t0(4) by blast
    ultimately show ?thesis by (rule only_writes_mono)
  qed
  have lys1: "length ys1 = L - 1" using lymid L2 by (simp add: ys1 L_def)
  have idx: "yss ! (L - 2) = last ys1"
  proof -
    have e: "L - 2 = length ys1 - 1" using lys1 by simp
    have ne1: "ys1 \<noteq> []" by (simp add: ys1)
    then have "length ys1 - 1 < length ys1" by (cases ys1) simp_all
    then have "yss ! (length ys1 - 1) = ys1 ! (length ys1 - 1)" by (simp only: yss nth_append if_True)
    also have "\<dots> = last ys1" using ne1 by (simp add: last_conv_nth)
    finally show ?thesis by (simp only: e)
  qed
  have hid: "holds m' (if even L then ptr tmp else ptr prev) (yss ! (L - 2))"
  proof -
    have ev: "even (L - 2) = even L" using L2 by (simp add: L_def)
    have pt: "ptr tmp' = (if even L then ptr tmp else ptr prev)" using p2 unfolding ev t0 .
    have hm2: "holds m2 (ptr tmp') (last ys1)" using c2' by (rule contents_holds)
    have "{ptr tmp' ..< ptr tmp' + length (last ys1)}
        \<inter> {ptr output ..< ptr output + length (last nss)} = {}"
    proof -
      have "length (last ys1) = len tmp'" using length_contents [of m2 tmp'] by (simp add: c2')
      then have "{ptr tmp' ..< ptr tmp' + length (last ys1)} = region tmp'" by (simp add: region_def)
      with d show ?thesis by simp
    qed
    with f3 hm2 have "holds m' (ptr tmp') (last ys1)" by (rule only_writes_holds)
    then show ?thesis by (simp add: pt idx)
  qed
  have "holds m' (ptr output) (last yss)" using h3 by (simp add: yss)
  moreover have "length yss = length nss" using lys1 L2 by (simp add: yss L_def)
  ultimately show ?thesis using run frame hid False by (intro exI [of _ m']) (simp add: L_def)
qed

lemma processLayer_frame:
  "processLayer input ns ps output m = Inr m' \<Longrightarrow> only_writes (region output) m m'"
  unfolding processLayer_def by (rule processLayer_from_frame)

lemma region_reslice: "reslice s k = Inr s' \<Longrightarrow> region s' \<subseteq> extent s \<and> extent s' = extent s"
  by (auto simp add: reslice_def region_def extent_def split: if_splits)

lemma middle_layers_frame:
  "middle_layers i nLayers nss pss prev tmp m = Inr (prev', tmp', m')
     \<Longrightarrow> len tmp \<le> cap tmp
     \<Longrightarrow> only_writes (extent prev \<union> extent tmp) m m'
         \<and> region tmp' \<subseteq> extent prev \<union> extent tmp"
proof (induction i nLayers nss pss prev tmp m rule: middle_layers.induct)
  case (1 i nLayers nss pss prev tmp m)
  show ?case
  proof (cases "i < nLayers - 1")
    case False
    with "1.prems" have "prev' = prev" "tmp' = tmp" "m' = m"
      by (subst (asm) middle_layers.simps, simp)+
    then show ?thesis using "1.prems"(2) region_subset_extent [of tmp]
      by (auto simp add: only_writes_refl)
  next
    case True
    from "1.prems"(1) True obtain tmp1 m1 where
      rs: "reslice prev (length (nss ! i)) = Inr tmp1"
      and ip: "i < length pss"
      and pl: "processLayer tmp (nss ! i) (pss ! i) tmp1 m = Inr m1"
      and r: "middle_layers (Suc i) nLayers nss pss tmp tmp1 m1 = Inr (prev', tmp', m')"
      by (subst (asm) middle_layers.simps) (auto split: sum.splits if_splits)
    have l1: "len tmp1 \<le> cap tmp1" using rs by (auto simp add: reslice_def split: if_splits)
    from region_reslice [OF rs] have rg: "region tmp1 \<subseteq> extent prev" "extent tmp1 = extent prev"
      by simp_all
    from "1.IH" [OF True rs ip pl r l1]
    have f: "only_writes (extent tmp \<union> extent tmp1) m1 m'"
      and s: "region tmp' \<subseteq> extent tmp \<union> extent tmp1"
      by simp_all
    have "only_writes (region tmp1) m m1" using pl by (rule processLayer_frame)
    from only_writes_trans [OF this f]
    have "only_writes (extent prev \<union> extent tmp) m m'"
      by (rule only_writes_mono) (use rg in auto)
    then show ?thesis using s rg by auto
  qed
qed

text \<open>Whenever \<open>predict\<close> returns, it has written only to the output slice and, through
  their whole capacity, the two scratch slices.\<close>

lemma predict_frame:
  assumes "predict input nss pss prev tmp output m = Inr m'"
  shows "only_writes (region output \<union> extent prev \<union> extent tmp) m m'"
proof (cases "length nss = 1")
  case True
  with assms have "processLayer input (nss ! 0) (pss ! 0) output m = Inr m'"
    by (simp add: predict_def split: if_splits)
  then have "only_writes (region output) m m'" by (rule processLayer_frame)
  then show ?thesis by (rule only_writes_mono) auto
next
  case False
  with assms obtain tmp0 m1 prev' tmp' m2 where
    rs: "reslice tmp (length (nss ! 0)) = Inr tmp0"
    and r1: "processLayer input (nss ! 0) (pss ! 0) tmp0 m = Inr m1"
    and r2: "middle_layers 1 (length nss) nss pss prev tmp0 m1 = Inr (prev', tmp', m2)"
    and r3: "processLayer tmp' (nss ! (length nss - 1)) (pss ! (length nss - 1)) output m2 = Inr m'"
    by (auto simp add: predict_def Let_def split: if_splits sum.splits)
  have l0: "len tmp0 \<le> cap tmp0" using rs by (auto simp add: reslice_def split: if_splits)
  from region_reslice [OF rs] have rg: "region tmp0 \<subseteq> extent tmp" "extent tmp0 = extent tmp"
    by simp_all
  have f1: "only_writes (region tmp0) m m1" using r1 by (rule processLayer_frame)
  have f2: "only_writes (extent prev \<union> extent tmp0) m1 m2"
    using middle_layers_frame [OF r2 l0] by simp
  have f3: "only_writes (region output) m2 m'" using r3 by (rule processLayer_frame)
  from only_writes_trans [OF only_writes_trans [OF f1 f2] f3]
  show ?thesis by (rule only_writes_mono) (use rg in auto)
qed




lemma make_slice_no_error: "make_slice k m \<noteq> Inl (Error msg)"
  by (simp add: make_slice_def)


lemma layer_value_from_total:
  "(\<forall>j<length ns. i + j < length ps \<and> combine_total (ns ! j) (ps ! (i + j)) (length xs))
     \<Longrightarrow> \<exists>ys. layer_value_from i ns ps xs = Inr ys"
proof (induction ns arbitrary: i)
  case Nil
  show ?case by simp
next
  case (Cons unit rest)
  from Cons.prems [rule_format, of 0] have i: "i < length ps"
    and t: "combine_total unit (ps ! i) (length xs)" by simp_all
  from t obtain c where c: "Combine unit (ps ! i) xs = Inr c"
    unfolding combine_total_def by blast
  have "\<forall>j<length rest. Suc i + j < length ps \<and> combine_total (rest ! j) (ps ! (Suc i + j)) (length xs)"
    using Cons.prems by (auto dest: spec [of _ "Suc j" for j])
  from Cons.IH [OF this] obtain ys where "layer_value_from (Suc i) rest ps xs = Inr ys" by blast
  then show ?case using i c by simp
qed

lemma layer_values_from_total:
  "valid_layers w nss pss' \<Longrightarrow> length xs = w
     \<Longrightarrow> \<exists>yss. layer_values_from (length pre) nss (pre @ pss') xs = Inr yss"
proof (induction nss arbitrary: w pss' pre xs)
  case Nil
  show ?case by simp
next
  case (Cons ns rest)
  from Cons.prems(1) obtain ps prest where p: "pss' = ps # prest"
    and l: "length ps = length ns"
    and t: "\<forall>j<length ns. combine_total (ns ! j) (ps ! j) w"
    and v: "valid_layers (length ns) rest prest"
    by (cases pss') auto
  have "\<forall>j<length ns. 0 + j < length ps \<and> combine_total (ns ! j) (ps ! (0 + j)) (length xs)"
    using l t Cons.prems(2) by simp
  from layer_value_from_total [OF this] obtain ys where ys: "layer_value ns ps xs = Inr ys"
    unfolding layer_value_def by blast
  then have ly: "length ys = length ns" by (rule length_layer_value)
  from Cons.IH [OF v ly, of "pre @ [ps]"] obtain yss where
    "layer_values_from (Suc (length pre)) rest (pre @ ps # prest) ys = Inr yss" by auto
  then show ?case using ys by (simp add: p)
qed

lemma valid_net_values:
  assumes "valid_net n" and "int (length xs) = inputDim n"
  shows "\<exists>yss. layer_values (neurons n) (parameters n) xs = Inr yss"
proof -
  from assms have v: "valid_layers (nat (inputDim n)) (neurons n) (parameters n)"
    and l: "length xs = nat (inputDim n)"
    by (auto simp add: valid_net_def)
  from layer_values_from_total [OF v l, of "[]"] show ?thesis by (simp add: layer_values_def)
qed

lemma widest_ge:
  "a \<le> foldl (\<lambda>mx layer. if length layer > mx then length layer else mx) a rest
   \<and> (\<forall>l \<in> set rest. length l
         \<le> foldl (\<lambda>mx layer. if length layer > mx then length layer else mx) a rest)"
proof (induction rest arbitrary: a)
  case Nil
  show ?case by simp
next
  case (Cons l rest)
  let ?a' = "if length l > a then length l else a"
  from Cons.IH [of ?a'] show ?case by (auto simp add: not_less dest: order_trans [rotated])
qed

lemma newPredictMemory_fresh:
  assumes "nss \<noteq> []"
  shows "\<exists>prev tmp m' mx. newPredictMemory nss m = Inr (prev, tmp, m')
           \<and> prev = \<lparr>ptr = brk m, len = mx, cap = mx\<rparr>
           \<and> tmp = \<lparr>ptr = brk m + mx, len = mx, cap = mx\<rparr>
           \<and> brk m' = brk m + mx + mx
           \<and> (\<forall>a < brk m. cells m' a = cells m a)
           \<and> (\<forall>l \<in> set nss. length l \<le> mx)"
proof -
  from assms obtain first rest where n: "nss = first # rest" by (cases nss) auto
  define mx where "mx = foldl (\<lambda>mx layer. if length layer > mx then length layer else mx)
      (length first) rest"
  from widest_ge [of "length first" rest]
  have w: "\<forall>l \<in> set nss. length l \<le> mx" by (simp add: n mx_def)
  show ?thesis
    apply (rule exI [of _ "\<lparr>ptr = brk m, len = mx, cap = mx\<rparr>"])
    apply (rule exI [of _ "\<lparr>ptr = brk m + mx, len = mx, cap = mx\<rparr>"])
    using w
    apply (simp add: newPredictMemory_def n mx_def [symmetric] make_slice_def Let_def)
    done
qed

lemma Predict_core:
  assumes v: "valid_net n" and li: "int (len input) = inputDim n"
    and wi: "ptr input + len input \<le> brk m1"
    and lo: "int (len out) = outputDim n" and wo: "ptr out + len out \<le> brk m1"
    and dj: "region input \<inter> region out = {}"
  shows "\<exists>prev tmp m2 m3 yss.
           newPredictMemory (neurons n) m1 = Inr (prev, tmp, m2)
         \<and> predict input (neurons n) (parameters n) prev tmp out m2 = Inr m3
         \<and> layer_values (neurons n) (parameters n) (contents m1 input) = Inr yss
         \<and> holds m3 (ptr out) (last yss)
         \<and> contents m3 input = contents m1 input
         \<and> (\<forall>a < brk m1. a \<notin> region out \<longrightarrow> cells m3 a = cells m1 a)"
proof -
  let ?nss = "neurons n"
  from v have ne: "?nss \<noteq> []" and od: "outputDim n = int (length (last ?nss))"
    by (simp_all add: valid_net_def)
  from newPredictMemory_fresh [OF ne, of m1] obtain prev tmp m2 mx where
    np: "newPredictMemory ?nss m1 = Inr (prev, tmp, m2)"
    and prev: "prev = \<lparr>ptr = brk m1, len = mx, cap = mx\<rparr>"
    and tmp: "tmp = \<lparr>ptr = brk m1 + mx, len = mx, cap = mx\<rparr>"
    and same: "\<forall>a < brk m1. cells m2 a = cells m1 a"
    and mx: "\<forall>l \<in> set ?nss. length l \<le> mx"
    by blast
  have ri: "region input \<subseteq> {0 ..< brk m1}" using wi by (auto simp add: region_def)
  have ro: "region out \<subseteq> {0 ..< brk m1}" using wo by (auto simp add: region_def)
  have ep: "extent prev = {brk m1 ..< brk m1 + mx}" by (simp add: prev extent_def)
  have et: "extent tmp = {brk m1 + mx ..< brk m1 + mx + mx}" by (simp add: tmp extent_def)
  have ci: "contents m2 input = contents m1 input"
    by (rule contents_cong) (use ri same in auto)
  from valid_net_values [OF v, of "contents m1 input"] li obtain yss where
    yss: "layer_values ?nss (parameters n) (contents m1 input) = Inr yss"
    by (auto simp add: length_contents)
  then have pure: "layer_values ?nss (parameters n) (contents m2 input) = Inr yss"
    by (simp add: ci)
  have out: "length (last ?nss) \<le> len out" using lo od by simp
  have caps: "\<forall>k. k < length ?nss - 1 \<longrightarrow> length (?nss ! k) \<le> cap prev \<and> length (?nss ! k) \<le> cap tmp"
    using mx by (simp add: prev tmp)
  have d2: "region input \<inter> extent tmp = {}" using ri unfolding et by auto
  have d3: "extent prev \<inter> extent tmp = {}" unfolding ep et by auto
  have d4: "region out \<inter> extent tmp = {}" using ro unfolding et by auto
  have d5: "region out \<inter> extent prev = {}" using ro unfolding ep by auto
  from predict_correct [OF ne pure out caps dj d2 d3 d4 d5]
  obtain m3 where r: "predict input ?nss (parameters n) prev tmp out m2 = Inr m3"
    and h: "holds m3 (ptr out) (last yss)"
    and f: "only_writes (region out \<union> (if length ?nss = 1 then {} else extent prev \<union> extent tmp)) m2 m3"
    by blast
  have f': "only_writes (region out \<union> (extent prev \<union> extent tmp)) m2 m3"
    using f by (rule only_writes_mono) auto
  have "region input \<inter> (region out \<union> (extent prev \<union> extent tmp)) = {}"
    using dj ri unfolding ep et by auto
  with f' have "contents m3 input = contents m2 input" by (rule only_writes_contents)
  then have c3: "contents m3 input = contents m1 input" by (simp add: ci)
  have "\<forall>a < brk m1. a \<notin> region out \<longrightarrow> cells m3 a = cells m1 a"
  proof (intro allI impI)
    fix a assume a: "a < brk m1" "a \<notin> region out"
    then have "a \<notin> region out \<union> (extent prev \<union> extent tmp)" unfolding ep et by auto
    with f' have "cells m3 a = cells m2 a" by (rule only_writes_cells)
    with same a show "cells m3 a = cells m1 a" by simp
  qed
  with np r yss h c3 show ?thesis by blast
qed

lemma Predict_correct:
  assumes v: "valid_net n" and li: "int (len input) = inputDim n"
    and wi: "ptr input + len input \<le> brk m"
    and o: "output = None \<or> (\<exists>out. output = Some out \<and> int (len out) = outputDim n
               \<and> ptr out + len out \<le> brk m \<and> region input \<inter> region out = {})"
  shows "\<exists>out m' yss. Predict n input output m = Inr (out, m')
           \<and> layer_values (neurons n) (parameters n) (contents m input) = Inr yss
           \<and> holds m' (ptr out) (last yss)
           \<and> int (len out) = outputDim n
           \<and> (case output of None \<Rightarrow> ptr out = brk m | Some given \<Rightarrow> out = given)
           \<and> contents m' input = contents m input
           \<and> (\<forall>a < brk m. a \<notin> region out \<longrightarrow> cells m' a = cells m a)"
proof (cases "output")
  case None
  from v have od: "0 \<le> outputDim n" by (simp add: valid_net_def)
  define w where "w = nat (outputDim n)"
  define out where "out = \<lparr>ptr = brk m, len = w, cap = w\<rparr>"
  define m1 where "m1 = m\<lparr>cells := (\<lambda>a. if brk m \<le> a \<and> a < brk m + w then 0 else cells m a),
                  brk := brk m + w\<rparr>"
  have mk: "make_slice (outputDim n) m = Inr (out, m1)" using od by (simp add: make_slice_def out_def m1_def w_def)
  have b1: "brk m1 = brk m + w" and s1: "\<forall>a < brk m. cells m1 a = cells m a"
    by (simp_all add: m1_def)
  have ro: "region out = {brk m ..< brk m + w}" by (simp add: out_def region_def)
  have ri: "region input \<subseteq> {0 ..< brk m}" using wi by (auto simp add: region_def)
  have c1: "contents m1 input = contents m input"
    by (rule contents_cong) (use ri s1 in auto)
  have wi1: "ptr input + len input \<le> brk m1" using wi b1 by simp
  have lo: "int (len out) = outputDim n" using od by (simp add: out_def w_def)
  have wo: "ptr out + len out \<le> brk m1" by (simp add: out_def b1)
  have dj: "region input \<inter> region out = {}" using ri unfolding ro by auto
  from Predict_core [OF v li wi1 lo wo dj] obtain prev tmp m2 m3 yss where
    "newPredictMemory (neurons n) m1 = Inr (prev, tmp, m2)"
    "predict input (neurons n) (parameters n) prev tmp out m2 = Inr m3"
    "layer_values (neurons n) (parameters n) (contents m1 input) = Inr yss"
    "holds m3 (ptr out) (last yss)"
    "contents m3 input = contents m1 input"
    and f: "\<forall>a < brk m1. a \<notin> region out \<longrightarrow> cells m3 a = cells m1 a"
    by blast
  moreover have "\<forall>a < brk m. a \<notin> region out \<longrightarrow> cells m3 a = cells m a"
    using f s1 b1 by auto
  moreover have "ptr out = brk m" by (simp add: out_def)
  ultimately show ?thesis
    using None li mk lo c1 by (intro exI [of _ out] exI [of _ m3] exI [of _ yss]) (simp add: Predict_def)
next
  case (Some out)
  with o have lo: "int (len out) = outputDim n" and wo: "ptr out + len out \<le> brk m"
    and dj: "region input \<inter> region out = {}" by simp_all
  from Predict_core [OF v li wi lo wo dj] obtain prev tmp m2 m3 yss where
    "newPredictMemory (neurons n) m = Inr (prev, tmp, m2)"
    "predict input (neurons n) (parameters n) prev tmp out m2 = Inr m3"
    "layer_values (neurons n) (parameters n) (contents m input) = Inr yss"
    "holds m3 (ptr out) (last yss)"
    "contents m3 input = contents m input"
    "\<forall>a < brk m. a \<notin> region out \<longrightarrow> cells m3 a = cells m a"
    by blast
  then show ?thesis
    using Some li lo by (intro exI [of _ out] exI [of _ m3] exI [of _ yss]) (simp add: Predict_def)
qed


lemma layer_value_from_nth:
  "layer_value_from i ns ps xs = Inr ys \<Longrightarrow> j < length ns
     \<Longrightarrow> \<exists>c. Combine (ns ! j) (ps ! (i + j)) xs = Inr c \<and> ys ! j = Activate (ns ! j) c"
proof (induction ns arbitrary: i j ys)
  case Nil
  then show ?case by simp
next
  case (Cons unit rest)
  from Cons.prems(1) obtain c ys' where c: "Combine unit (ps ! i) xs = Inr c"
    and r: "layer_value_from (Suc i) rest ps xs = Inr ys'" and ys: "ys = Activate unit c # ys'"
    by (auto split: if_splits sum.splits)
  show ?case
  proof (cases j)
    case 0
    then show ?thesis using c ys by simp
  next
    case (Suc j')
    with Cons.prems(2) have "j' < length rest" by simp
    from Cons.IH [OF r this] show ?thesis using Suc ys by simp
  qed
qed

lemma layer_values_from_nth:
  "layer_values_from i nss pss xs = Inr yss \<Longrightarrow> k < length nss
     \<Longrightarrow> layer_value (nss ! k) (pss ! (i + k)) (if k = 0 then xs else yss ! (k - 1)) = Inr (yss ! k)"
proof (induction nss arbitrary: i k xs yss)
  case Nil
  then show ?case by simp
next
  case (Cons ns rest)
  from Cons.prems(1) obtain ys yss' where a: "layer_value ns (pss ! i) xs = Inr ys"
    and r: "layer_values_from (Suc i) rest pss ys = Inr yss'" and y: "yss = ys # yss'"
    by (auto split: if_splits sum.splits)
  show ?case
  proof (cases k)
    case 0
    then show ?thesis using a y by simp
  next
    case (Suc k')
    with Cons.prems(2) have k': "k' < length rest" by simp
    from Cons.IH [OF r k'] show ?thesis using Suc y by (cases k') simp_all
  qed
qed

lemma layer_values_elementwise:
  assumes "layer_values nss pss xs = Inr yss" and "k < length nss" and "j < length (nss ! k)"
  shows "\<exists>c. Combine (nss ! k ! j) (pss ! k ! j) (if k = 0 then xs else yss ! (k - 1)) = Inr c
           \<and> yss ! k ! j = Activate (nss ! k ! j) c"
proof -
  from layer_values_from_nth [OF assms(1) [unfolded layer_values_def] assms(2)]
  have "layer_value_from 0 (nss ! k) (pss ! k) (if k = 0 then xs else yss ! (k - 1)) = Inr (yss ! k)"
    by (simp add: layer_value_def)
  from layer_value_from_nth [OF this assms(3)] show ?thesis by simp
qed

lemma weighted_sum_total:
  "i + length xs \<le> length ps \<Longrightarrow> \<exists>c. weighted_sum ps i xs acc = Inr c"
  by (induction xs arbitrary: i acc) auto

lemma SumNeuron_total: "length ps = Suc w \<Longrightarrow> combine_total (SumNeuron a) ps w"
proof -
  assume l: "length ps = Suc w"
  show ?thesis
    unfolding combine_total_def
  proof (intro allI impI)
    fix xs :: "'a list" assume "length xs = w"
    with l have "0 + length xs \<le> length ps" by simp
    from weighted_sum_total [OF this, of 0] obtain c where "weighted_sum ps 0 xs 0 = Inr c" by blast
    moreover have "ps \<noteq> []" using l by auto
    ultimately show "\<exists>c. Combine (SumNeuron a) ps xs = Inr c"
      by (simp add: SumNeuron_def SumNeuron_Combine_def)
  qed
qed

lemma example_valid: "valid_net example_net"
  by (simp add: valid_net_def example_net_def example_neurons_def example_parameters_def
      LinearNeuron_def SumNeuron_total less_Suc_eq numeral_2_eq_2)

section \<open>Claims about the forward pass\<close>

text \<open>
  C3. Let the layers' values be \<open>yss\<close>, each element \<open>j\<close> of layer \<open>k\<close> being
  \<open>Activate\<close> of \<open>Combine\<close> of the unit's parameters and the layer's input (the network's
  input for the first layer, the layer before otherwise). With the input, the output and
  the two scratch buffers apart from each other, the scratch buffers as long as every
  hidden layer and the output as long as the last layer, \<open>predict\<close> returns with the last
  layer's values in the caller's output buffer. With one layer it writes nowhere else.
  With more, it writes besides only to the scratch buffers, which take the hidden layers
  in turn: the last hidden layer's values are at the start of \<open>tmp\<close> when the number of
  layers is even, of \<open>prev\<close> when it is odd.
\<close>

theorem forward_pass:
  assumes "nss \<noteq> []"
    and "layer_values nss pss (contents m input) = Inr yss"
    and "length (last nss) \<le> len output"
    and "\<forall>k. k < length nss - 1 \<longrightarrow> length (nss ! k) \<le> cap prev \<and> length (nss ! k) \<le> cap tmp"
    and "region input \<inter> region output = {}" and "region input \<inter> extent tmp = {}"
    and "extent prev \<inter> extent tmp = {}"
    and "region output \<inter> extent tmp = {}" and "region output \<inter> extent prev = {}"
  shows "\<exists>m'. predict input nss pss prev tmp output m = Inr m'
           \<and> holds m' (ptr output) (last yss)
           \<and> (\<forall>k<length nss. \<forall>j<length (nss ! k).
                 \<exists>c. Combine (nss ! k ! j) (pss ! k ! j)
                        (if k = 0 then contents m input else yss ! (k - 1)) = Inr c
                     \<and> yss ! k ! j = Activate (nss ! k ! j) c)
           \<and> (length nss = 1 \<longrightarrow> only_writes (region output) m m')
           \<and> (2 \<le> length nss \<longrightarrow>
                only_writes (region output \<union> extent prev \<union> extent tmp) m m'
                \<and> holds m' (if even (length nss) then ptr tmp else ptr prev)
                     (yss ! (length nss - 2)))"
proof -
  from predict_correct [OF assms] obtain m' where
    r: "predict input nss pss prev tmp output m = Inr m'"
    and h: "holds m' (ptr output) (last yss)"
    and f: "only_writes (region output \<union> (if length nss = 1 then {} else extent prev \<union> extent tmp)) m m'"
    and p: "2 \<le> length nss \<longrightarrow>
        holds m' (if even (length nss) then ptr tmp else ptr prev) (yss ! (length nss - 2))"
    by blast
  have one: "length nss = 1 \<longrightarrow> only_writes (region output) m m'" using f by auto
  have "only_writes (region output \<union> extent prev \<union> extent tmp) m m'"
    using f by (rule only_writes_mono) auto
  with p have more: "2 \<le> length nss \<longrightarrow>
      only_writes (region output \<union> extent prev \<union> extent tmp) m m'
      \<and> holds m' (if even (length nss) then ptr tmp else ptr prev) (yss ! (length nss - 2))"
    by simp
  have el: "\<forall>k<length nss. \<forall>j<length (nss ! k).
      \<exists>c. Combine (nss ! k ! j) (pss ! k ! j)
             (if k = 0 then contents m input else yss ! (k - 1)) = Inr c
          \<and> yss ! k ! j = Activate (nss ! k ! j) c"
    using layer_values_elementwise [OF assms(2)] by blast
  from r h el one more show ?thesis by blast
qed

text \<open>The example network, with the output in cell 2, \<open>tmp\<close> in cells 3 and 4 and \<open>prev\<close>
  in cells 5 and 6.\<close>

theorem forward_pass_witness:
  "\<exists>m'. predict example_input example_neurons example_parameters
           \<lparr>ptr = 5, len = 2, cap = 2\<rparr> \<lparr>ptr = 3, len = 2, cap = 2\<rparr>
           \<lparr>ptr = 2, len = 1, cap = 1\<rparr> example_memory = Inr m'
        \<and> holds m' 2 [47] \<and> holds m' 5 [23]"
proof -
  let ?prev = "\<lparr>ptr = 5, len = 2, cap = 2\<rparr>" and ?tmp = "\<lparr>ptr = 3, len = 2, cap = 2\<rparr>"
  let ?out = "\<lparr>ptr = 2, len = 1, cap = 1\<rparr>"
  have 1: "example_neurons \<noteq> []" by (simp add: example_neurons_def)
  have 2: "layer_values example_neurons example_parameters (contents example_memory example_input)
      = Inr [[17, 5], [23], [47]]"
    by code_simp
  have 3: "length (last example_neurons) \<le> len ?out" by (simp add: example_neurons_def)
  have 4: "\<forall>k. k < length example_neurons - 1 \<longrightarrow>
      length (example_neurons ! k) \<le> cap ?prev \<and> length (example_neurons ! k) \<le> cap ?tmp"
    by (simp add: example_neurons_def less_Suc_eq)
  have 5: "region example_input \<inter> region ?out = {}" "region example_input \<inter> extent ?tmp = {}"
    "extent ?prev \<inter> extent ?tmp = {}" "region ?out \<inter> extent ?tmp = {}"
    "region ?out \<inter> extent ?prev = {}"
    by (simp_all add: region_def extent_def example_input_def)
  from forward_pass [OF 1 2 3 4 5]
  show ?thesis by (auto simp add: example_neurons_def numeral_3_eq_3)
qed

text \<open>
  C9. Whenever \<open>predict\<close> returns it has written only to the output slice and to the two
  scratch buffers, so an input that shares no cell with them is unchanged. \<open>Net.Predict\<close>
  on a valid network, with an input of the declared length that lies in allocated
  memory and an output that is \<open>nil\<close> or of the declared length, allocated and apart from
  the input, does return; the input is unchanged, and so is every cell allocated before
  the call outside the output.
\<close>

theorem input_unchanged:
  "(predict input nss pss prev tmp output m = Inr m'
      \<and> region input \<inter> (region output \<union> extent prev \<union> extent tmp) = {}
     \<longrightarrow> contents m' input = contents m input
         \<and> only_writes (region output \<union> extent prev \<union> extent tmp) m m')
   \<and> (valid_net n \<and> int (len input) = inputDim n \<and> ptr input + len input \<le> brk m
       \<and> (given = None \<or> (\<exists>out. given = Some out \<and> int (len out) = outputDim n
              \<and> ptr out + len out \<le> brk m \<and> region input \<inter> region out = {}))
     \<longrightarrow> (\<exists>out m''. Predict n input given m = Inr (out, m'')
              \<and> contents m'' input = contents m input
              \<and> (\<forall>a < brk m. a \<notin> region out \<longrightarrow> cells m'' a = cells m a)))"
proof (intro conjI impI)
  assume a: "predict input nss pss prev tmp output m = Inr m'
      \<and> region input \<inter> (region output \<union> extent prev \<union> extent tmp) = {}"
  then have "predict input nss pss prev tmp output m = Inr m'" by simp
  then have f: "only_writes (region output \<union> extent prev \<union> extent tmp) m m'"
    by (rule predict_frame)
  then show "only_writes (region output \<union> extent prev \<union> extent tmp) m m'" .
  from a have d: "region input \<inter> (region output \<union> extent prev \<union> extent tmp) = {}" by simp
  from f d show "contents m' input = contents m input" by (rule only_writes_contents)
next
  assume a: "valid_net n \<and> int (len input) = inputDim n \<and> ptr input + len input \<le> brk m
       \<and> (given = None \<or> (\<exists>out. given = Some out \<and> int (len out) = outputDim n
              \<and> ptr out + len out \<le> brk m \<and> region input \<inter> region out = {}))"
  then have "valid_net n" "int (len input) = inputDim n" "ptr input + len input \<le> brk m"
    "given = None \<or> (\<exists>out. given = Some out \<and> int (len out) = outputDim n
              \<and> ptr out + len out \<le> brk m \<and> region input \<inter> region out = {})"
    by simp_all
  from Predict_correct [OF this]
  show "\<exists>out m''. Predict n input given m = Inr (out, m'')
              \<and> contents m'' input = contents m input
              \<and> (\<forall>a < brk m. a \<notin> region out \<longrightarrow> cells m'' a = cells m a)"
    by blast
qed

theorem input_unchanged_witness:
  "(\<exists>out m''. Predict example_net example_input None example_memory = Inr (out, m'')
       \<and> contents m'' example_input = [4, 5])
   \<and> (\<exists>out m''. Predict example_net example_input (Some \<lparr>ptr = 2, len = 1, cap = 1\<rparr>)
                   example_memory = Inr (out, m'')
       \<and> contents m'' example_input = [4, 5])"
proof -
  have c: "contents example_memory example_input = [4, 5]" by code_simp
  have h: "int (len example_input) = inputDim example_net"
    "ptr example_input + len example_input \<le> brk example_memory"
    by (simp_all add: example_input_def example_net_def example_memory_def)
  have g: "int (len \<lparr>ptr = 2, len = 1, cap = 1\<rparr>) = outputDim example_net"
    "ptr \<lparr>ptr = 2, len = 1, cap = 1\<rparr> + len \<lparr>ptr = 2, len = 1, cap = 1\<rparr> \<le> brk example_memory"
    "region example_input \<inter> region \<lparr>ptr = 2, len = 1, cap = 1\<rparr> = {}"
    by (simp_all add: example_net_def example_memory_def region_def example_input_def)
  from input_unchanged [of example_input undefined undefined undefined undefined undefined
      example_memory undefined example_net None, THEN conjunct2] example_valid h c
  have a: "\<exists>out m''. Predict example_net example_input None example_memory = Inr (out, m'')
       \<and> contents m'' example_input = [4, 5]"
    by auto
  from input_unchanged [of example_input undefined undefined undefined undefined undefined
      example_memory undefined example_net "Some \<lparr>ptr = 2, len = 1, cap = 1\<rparr>",
      THEN conjunct2] example_valid h g c
  have b: "\<exists>out m''. Predict example_net example_input (Some \<lparr>ptr = 2, len = 1, cap = 1\<rparr>)
                   example_memory = Inr (out, m'')
       \<and> contents m'' example_input = [4, 5]"
    by auto
  from a b show ?thesis by simp
qed



section \<open>BatchPredict: the checks and the sink\<close>

lemma make_float64s_fresh:
  "0 \<le> n \<Longrightarrow> 8 * n \<le> maxAlloc \<Longrightarrow>
   make_float64s n m =
     Inr (\<lparr>ptr = brk m, len = nat n, cap = nat n\<rparr>,
          m\<lparr>cells := (\<lambda>a. if brk m \<le> a \<and> a < brk m + nat n then 0 else cells m a),
            brk := brk m + nat n\<rparr>)"
  by (simp add: make_float64s_def makeslice_panics_def make_slice_def)

lemma make_float64s_no_error: "make_float64s n m \<noteq> Inl (Error msg)"
  by (simp add: make_float64s_def make_slice_no_error)

lemma alloc_rows_no_error: "alloc_rows k outDim m \<noteq> Inl (Error msg)"
proof (induction k arbitrary: m)
  case 0
  show ?case by simp
next
  case (Suc k)
  show ?case
    using Suc.IH make_float64s_no_error [of outDim m msg]
    by (auto split: sum.splits prod.splits)
qed

lemma Dims_no_error: "Dims a \<noteq> Inl (Error msg)"
  by (simp add: Dims_def split: matrix.splits list.splits)

lemma Dims_nonneg: "Dims a = Inr (n, c) \<Longrightarrow> 0 \<le> n \<and> 0 \<le> c"
  by (auto simp add: Dims_def split: matrix.splits list.splits)

lemma BatchPredict_checks_no_error:
  "BatchPredict_checks inputs outputs inDim outDim m \<noteq> Inl (Error msg)"
  using Dims_no_error [of inputs msg] alloc_rows_no_error [of _ outDim m msg]
  by (auto simp add: BatchPredict_checks_def Dims_no_error
      split: sum.splits prod.splits option.splits if_splits)

lemma alloc_rows_fresh:
  "0 \<le> outDim \<Longrightarrow> 8 * outDim \<le> maxAlloc \<Longrightarrow>
   \<exists>rows m1. alloc_rows k outDim m = Inr (rows, m1)
     \<and> length rows = k
     \<and> (\<forall>i<k. rows ! i = \<lparr>ptr = brk m + i * nat outDim, len = nat outDim, cap = nat outDim\<rparr>)
     \<and> brk m1 = brk m + k * nat outDim
     \<and> (\<forall>a<brk m. cells m1 a = cells m a)
     \<and> (\<forall>a. brk m \<le> a \<and> a < brk m1 \<longrightarrow> cells m1 a = 0)"
proof (induction k arbitrary: m)
  case 0
  show ?case by auto
next
  case (Suc k)
  define w where "w = nat outDim"
  define r where "r = \<lparr>ptr = brk m, len = w, cap = w\<rparr>"
  define m0 where "m0 = m\<lparr>cells := (\<lambda>a. if brk m \<le> a \<and> a < brk m + w then 0 else cells m a),
                  brk := brk m + w\<rparr>"
  have mk: "make_float64s outDim m = Inr (r, m0)"
    using Suc.prems by (simp add: make_float64s_fresh r_def m0_def w_def)
  from Suc.IH [OF Suc.prems, of m0] obtain rows m1 where
    a: "alloc_rows k outDim m0 = Inr (rows, m1)"
    and l: "length rows = k"
    and r': "\<forall>i<k. rows ! i = \<lparr>ptr = brk m0 + i * w, len = w, cap = w\<rparr>"
    and b: "brk m1 = brk m0 + k * w"
    and s: "\<forall>a<brk m0. cells m1 a = cells m0 a"
    and z: "\<forall>a. brk m0 \<le> a \<and> a < brk m1 \<longrightarrow> cells m1 a = 0"
    unfolding w_def by blast
  have b0: "brk m0 = brk m + w" by (simp add: m0_def)
  have run: "alloc_rows (Suc k) outDim m = Inr (r # rows, m1)" by (simp add: mk a)
  have rows: "\<forall>i<Suc k. (r # rows) ! i = \<lparr>ptr = brk m + i * w, len = w, cap = w\<rparr>"
  proof (intro allI impI)
    fix i assume i: "i < Suc k"
    show "(r # rows) ! i = \<lparr>ptr = brk m + i * w, len = w, cap = w\<rparr>"
    proof (cases i)
      case 0 then show ?thesis by (simp add: r_def)
    next
      case (Suc j)
      with i r' have "rows ! j = \<lparr>ptr = brk m0 + j * w, len = w, cap = w\<rparr>" by simp
      then show ?thesis by (simp add: Suc b0 algebra_simps)
    qed
  qed
  have same: "\<forall>a<brk m. cells m1 a = cells m a"
    using s by (simp add: b0 m0_def)
  have zero: "\<forall>a. brk m \<le> a \<and> a < brk m1 \<longrightarrow> cells m1 a = 0"
  proof (intro allI impI)
    fix a assume a: "brk m \<le> a \<and> a < brk m1"
    show "cells m1 a = 0"
    proof (cases "a < brk m0")
      case True
      with s have "cells m1 a = cells m0 a" by simp
      with a True show ?thesis by (simp add: m0_def)
    next
      case False
      with a z show ?thesis by simp
    qed
  qed
  show ?case
    using run l rows same zero b by (simp add: b0 w_def [symmetric] algebra_simps)
qed

lemma rows_loop_keeps:
  assumes body: "\<And>i st st'. body i st = Inr st' \<Longrightarrow> fst st' = fst st"
  shows "rows_loop body i e st = Inr st' \<Longrightarrow> fst st' = fst st"
proof (induction "nat (e - i)" arbitrary: i st)
  case 0
  then have "\<not> i < e" by simp
  with "0.prems" show ?case by (subst (asm) rows_loop.simps) simp
next
  case (Suc k)
  then have lt: "i < e" by simp
  with Suc.prems obtain st1 where b: "body i st = Inr st1"
    and r: "rows_loop body (i + 1) e st1 = Inr st'"
    by (subst (asm) rows_loop.simps) (auto split: sum.splits)
  have "k = nat (e - (i + 1))" using Suc.hyps(2) by simp
  then have "fst st' = fst st1" using r by (rule Suc.hyps(1))
  with body [OF b] show ?case by simp
qed

lemma f_ViewBoth_keeps: "f_ViewBoth batch inputs ch st = Inr st' \<Longrightarrow> fst st' = fst st"
proof -
  assume a: "f_ViewBoth batch inputs ch st = Inr st'"
  then obtain p m1 where
    r: "rows_loop
            (\<lambda>i (outputs, m).
               case RowView inputs i of
                 Inl e \<Rightarrow> Inl e
               | Inr inrow \<Rightarrow>
                   (case RowView outputs i of
                      Inl e \<Rightarrow> Inl e
                    | Inr outrow \<Rightarrow>
                        (case predictor_Predict p inrow outrow m of
                           Inl e \<Rightarrow> Inl e
                         | Inr m' \<Rightarrow> Inr (outputs, m'))))
            (fst ch) (snd ch) (fst st, m1) = Inr st'"
    by (auto simp add: f_ViewBoth_def split: sum.splits prod.splits)
  have "fst st' = fst (fst st, m1)"
    by (rule rows_loop_keeps [OF _ r]) (auto split: sum.splits prod.splits)
  then show ?thesis by simp
qed

lemma run_calls_keeps:
  assumes f: "\<And>c st st'. f c st = Inr st' \<Longrightarrow> fst st' = fst st"
  shows "run_calls f cs st = Inr st' \<Longrightarrow> fst st' = fst st"
proof (induction cs arbitrary: st)
  case Nil
  then show ?case by simp
next
  case (Cons c cs)
  from Cons.prems obtain st1 where c: "f c st = Inr st1" and r: "run_calls f cs st1 = Inr st'"
    by (auto split: sum.splits)
  from Cons.IH [OF r] f [OF c] show ?case by simp
qed

lemma BatchPredict_sink_kept:
  assumes c: "BatchPredict_checks inputs outputs inDim outDim m = Inr (Inr (n, SosMatrix rows, m1))"
    and r: "BatchPredict P sched batch inputs outputs inDim outDim grain m = Returned (Some out') e m'"
  shows "out' = SosMatrix rows"
proof -
  have s: "select_strategy (is_RowViewer inputs) (is_RowViewer (SosMatrix rows)) = ViewBoth"
    by (simp add: select_strategy_def is_RowViewer_def)
  from r obtain st' where
    rc: "run_calls (f_ViewBoth batch inputs) (calls (ParallelFor P n grain sched)) (SosMatrix rows, m1)
           = Inr st'"
    and o: "out' = fst st'"
    by (auto simp add: BatchPredict_def c s Let_def chunk_closure_def
        split: sum.splits error.splits prod.splits if_splits)
  have "fst st' = fst (SosMatrix rows, m1)"
    using f_ViewBoth_keeps rc by (rule run_calls_keeps)
  with o show ?thesis by simp
qed

section \<open>Claims about BatchPredict\<close>

text \<open>
  C1. The dispatch does not do what the claim says. The first case of the \<open>switch\<close> is
  taken when the inputs or the outputs have the row view, so the two cases written for
  exactly one side with the row view (a row view there, a buffer of the worker's own and
  a copy on the other side) are never taken: the strategy is that of the first case
  whenever a side has the row view, and the copying one when none has. With the row view
  on one side only, the closure of the first case calls \<open>RowView\<close> on the other side, whose
  \<open>RowViewer\<close> is \<open>nil\<close>, and the call panics: for a one-row batch of the example network
  with an \<open>SosMatrix\<close> on one side and a matrix without the row view on the other, either
  way round.
\<close>

theorem dispatch_ignores_capability:
  "select_strategy inputIsRowViewer outputIsRowViewer
     = (if inputIsRowViewer \<or> outputIsRowViewer then ViewBoth else CopyBoth)
   \<and> crashed_with (BatchPredict 1 [0, 0] example_batch (SosMatrix [example_input])
        (Some (CopyMatrix 1 [[0]])) 2 1 1 example_memory) = Some NilDereference
   \<and> crashed_with (BatchPredict 1 [0, 0] example_batch (CopyMatrix 2 [[4, 5]])
        (Some (SosMatrix [\<lparr>ptr = 2, len = 1, cap = 1\<rparr>])) 2 1 1 example_memory)
       = Some NilDereference"
proof (intro conjI)
  show "select_strategy inputIsRowViewer outputIsRowViewer
     = (if inputIsRowViewer \<or> outputIsRowViewer then ViewBoth else CopyBoth)"
    by (simp add: select_strategy_def)
  show "crashed_with (BatchPredict 1 [0, 0] example_batch (SosMatrix [example_input])
        (Some (CopyMatrix 1 [[0]])) 2 1 1 example_memory) = Some NilDereference"
    by code_simp
  show "crashed_with (BatchPredict 1 [0, 0] example_batch (CopyMatrix 2 [[4, 5]])
        (Some (SosMatrix [\<lparr>ptr = 2, len = 1, cap = 1\<rparr>])) 2 1 1 example_memory)
       = Some NilDereference"
    by code_simp
qed

text \<open>
  C2. The same defect breaks the batch for inputs without the row view. Predicting the
  row \<open>[4, 5]\<close> with \<open>Net.Predict\<close> gives \<open>[47]\<close>, and so does the batch of this one row
  held in an \<open>SosMatrix\<close>; the batch of the same row held in a matrix without the row
  view, with \<open>nil\<close> outputs (the sink that \<open>BatchPredict\<close> allocates is an \<open>SosMatrix\<close>),
  panics with a nil dereference and produces no row.
\<close>

theorem batch_rows_crash:
  "map_sum id (\<lambda>(out, m). contents m out) (Predict example_net example_input None example_memory)
     = Inr [47]
   \<and> returned_rows (PredictBatch 1 [0, 0] example_net (SosMatrix [example_input]) None example_memory)
     = Some [[47]]
   \<and> crashed_with (PredictBatch 1 [0, 0] example_net (CopyMatrix 2 [[4, 5]]) None example_memory)
     = Some NilDereference
   \<and> returned_rows (PredictBatch 1 [0, 0] example_net (CopyMatrix 2 [[4, 5]]) None example_memory)
     = None"
  by code_simp

text \<open>
  C5 (as amended). For inputs whose \<open>Dims\<close> return (an \<open>SosMatrix\<close> needs a first row to
  report a width): \<open>BatchPredict\<close> returns the outputs as given, the memory as it was and
  an error when the width of the inputs is not \<open>inputDim\<close>, and, for outputs that are not
  \<open>nil\<close> and whose \<open>Dims\<close> return, when their width is not \<open>outputDim\<close> or their number
  of rows is not that of the inputs. It returns an error in these cases only, and
  whenever it does the outputs are the ones given and no cell of the memory has changed.
  With \<open>nil\<close> outputs, matching inputs, and an \<open>outputDim\<close> and a number of samples that
  \<open>make\<close> accepts, the checks allocate an \<open>SosMatrix\<close> of \<open>nSamples\<close> rows of length
  \<open>outputDim\<close>, one after the other from \<open>brk\<close> upwards, zeroed, leaving every cell
  allocated before as it was; a call that returns without an error returns this sink.
\<close>

theorem BatchPredict_dimension_errors:
  assumes d: "Dims inputs = Inr (nSamples, dimInputs)"
  shows
   "(dimInputs \<noteq> inDim \<longrightarrow>
       BatchPredict P sched batch inputs outputs inDim outDim grain m
         = Returned outputs (Some ''predict batch: input dimension mismatch'') m)
    \<and> (\<forall>out nOut dimOut.
          dimInputs = inDim \<and> outputs = Some out \<and> Dims out = Inr (nOut, dimOut) \<longrightarrow>
            (dimOut \<noteq> outDim \<longrightarrow>
               BatchPredict P sched batch inputs outputs inDim outDim grain m
                 = Returned outputs (Some ''predict batch: output dimension mismatch'') m)
          \<and> (dimOut = outDim \<and> nOut \<noteq> nSamples \<longrightarrow>
               BatchPredict P sched batch inputs outputs inDim outDim grain m
                 = Returned outputs (Some ''predict batch: rows mismatch'') m))
    \<and> (\<forall>outs msg m'.
          BatchPredict P sched batch inputs outputs inDim outDim grain m = Returned outs (Some msg) m'
          \<longrightarrow> outs = outputs \<and> m' = m
              \<and> (dimInputs \<noteq> inDim
                 \<or> (\<exists>out nOut dimOut. outputs = Some out \<and> Dims out = Inr (nOut, dimOut)
                       \<and> (dimOut \<noteq> outDim \<or> nOut \<noteq> nSamples))))
    \<and> (outputs = None \<and> dimInputs = inDim \<and> 0 \<le> outDim \<and> 8 * outDim \<le> maxAlloc
          \<and> 24 * nSamples \<le> maxAlloc \<longrightarrow>
        (\<exists>rows m1.
           BatchPredict_checks inputs outputs inDim outDim m = Inr (Inr (nSamples, SosMatrix rows, m1))
           \<and> int (length rows) = nSamples
           \<and> (\<forall>i<length rows.
                 rows ! i = \<lparr>ptr = brk m + i * nat outDim, len = nat outDim, cap = nat outDim\<rparr>)
           \<and> brk m1 = brk m + length rows * nat outDim
           \<and> (\<forall>a<brk m. cells m1 a = cells m a)
           \<and> (\<forall>a. brk m \<le> a \<and> a < brk m1 \<longrightarrow> cells m1 a = 0)
           \<and> (\<forall>out' m'.
                 BatchPredict P sched batch inputs outputs inDim outDim grain m
                   = Returned (Some out') None m' \<longrightarrow> out' = SosMatrix rows)))"
proof (intro conjI allI impI)
  assume "dimInputs \<noteq> inDim"
  then show "BatchPredict P sched batch inputs outputs inDim outDim grain m
         = Returned outputs (Some ''predict batch: input dimension mismatch'') m"
    by (simp add: BatchPredict_def BatchPredict_checks_def d)
next
  fix out nOut dimOut
  assume a: "dimInputs = inDim \<and> outputs = Some out \<and> Dims out = Inr (nOut, dimOut)"
    and b: "dimOut \<noteq> outDim"
  then show "BatchPredict P sched batch inputs outputs inDim outDim grain m
                 = Returned outputs (Some ''predict batch: output dimension mismatch'') m"
    by (simp add: BatchPredict_def BatchPredict_checks_def d)
next
  fix out nOut dimOut
  assume a: "dimInputs = inDim \<and> outputs = Some out \<and> Dims out = Inr (nOut, dimOut)"
    and b: "dimOut = outDim \<and> nOut \<noteq> nSamples"
  then have "nSamples \<noteq> nOut" by auto
  with a b show "BatchPredict P sched batch inputs outputs inDim outDim grain m
                 = Returned outputs (Some ''predict batch: rows mismatch'') m"
    by (simp add: BatchPredict_def BatchPredict_checks_def d)
next
  fix outs msg m'
  assume r: "BatchPredict P sched batch inputs outputs inDim outDim grain m = Returned outs (Some msg) m'"
  have ne: "\<And>x. BatchPredict_checks inputs outputs inDim outDim m \<noteq> Inl (Error x)"
    by (rule BatchPredict_checks_no_error)
  from r ne have c: "BatchPredict_checks inputs outputs inDim outDim m = Inr (Inl (outs, msg))"
    and m: "m' = m"
    by (auto simp add: BatchPredict_def Let_def
        split: sum.splits error.splits prod.splits if_splits)
  show "m' = m" by (rule m)
  from c show "outs = outputs"
    by (auto simp add: BatchPredict_checks_def d split: if_splits option.splits sum.splits prod.splits)
  from c show "dimInputs \<noteq> inDim
                 \<or> (\<exists>out nOut dimOut. outputs = Some out \<and> Dims out = Inr (nOut, dimOut)
                       \<and> (dimOut \<noteq> outDim \<or> nOut \<noteq> nSamples))"
    by (auto simp add: BatchPredict_checks_def d split: if_splits option.splits sum.splits prod.splits)
next
  assume a: "outputs = None \<and> dimInputs = inDim \<and> 0 \<le> outDim \<and> 8 * outDim \<le> maxAlloc
          \<and> 24 * nSamples \<le> maxAlloc"
  have n0: "0 \<le> nSamples" using Dims_nonneg [OF d] by simp
  from a have "0 \<le> outDim" "8 * outDim \<le> maxAlloc" by simp_all
  from alloc_rows_fresh [OF this, of "nat nSamples" m] obtain rows m1 where
    al: "alloc_rows (nat nSamples) outDim m = Inr (rows, m1)"
    and l: "length rows = nat nSamples"
    and rw: "\<forall>i<nat nSamples.
        rows ! i = \<lparr>ptr = brk m + i * nat outDim, len = nat outDim, cap = nat outDim\<rparr>"
    and b: "brk m1 = brk m + nat nSamples * nat outDim"
    and s: "\<forall>a<brk m. cells m1 a = cells m a"
    and z: "\<forall>a. brk m \<le> a \<and> a < brk m1 \<longrightarrow> cells m1 a = 0"
    by blast
  have mk: "\<not> makeslice_panics 24 nSamples"
    using a n0 by (simp add: makeslice_panics_def)
  have c: "BatchPredict_checks inputs outputs inDim outDim m = Inr (Inr (nSamples, SosMatrix rows, m1))"
    using a by (simp add: BatchPredict_checks_def d mk al)
  have k: "\<forall>out' m'. BatchPredict P sched batch inputs outputs inDim outDim grain m
                   = Returned (Some out') None m' \<longrightarrow> out' = SosMatrix rows"
    using BatchPredict_sink_kept [OF c] by blast
  show "\<exists>rows m1.
           BatchPredict_checks inputs outputs inDim outDim m = Inr (Inr (nSamples, SosMatrix rows, m1))
           \<and> int (length rows) = nSamples
           \<and> (\<forall>i<length rows.
                 rows ! i = \<lparr>ptr = brk m + i * nat outDim, len = nat outDim, cap = nat outDim\<rparr>)
           \<and> brk m1 = brk m + length rows * nat outDim
           \<and> (\<forall>a<brk m. cells m1 a = cells m a)
           \<and> (\<forall>a. brk m \<le> a \<and> a < brk m1 \<longrightarrow> cells m1 a = 0)
           \<and> (\<forall>out' m'.
                 BatchPredict P sched batch inputs outputs inDim outDim grain m
                   = Returned (Some out') None m' \<longrightarrow> out' = SosMatrix rows)"
    using c l rw b s z k n0 by (intro exI [of _ rows] exI [of _ m1]) simp
qed

theorem BatchPredict_dimension_errors_witness:
  "BatchPredict 1 [0, 0] example_batch (SosMatrix [example_input]) None 3 1 1 example_memory
     = Returned None (Some ''predict batch: input dimension mismatch'') example_memory
   \<and> BatchPredict 1 [0, 0] example_batch (SosMatrix [example_input])
         (Some (CopyMatrix 2 [[0, 0]])) 2 1 1 example_memory
     = Returned (Some (CopyMatrix 2 [[0, 0]]))
         (Some ''predict batch: output dimension mismatch'') example_memory
   \<and> BatchPredict 1 [0, 0] example_batch (SosMatrix [example_input])
         (Some (CopyMatrix 1 [[0], [0]])) 2 1 1 example_memory
     = Returned (Some (CopyMatrix 1 [[0], [0]])) (Some ''predict batch: rows mismatch'') example_memory
   \<and> (\<exists>m1. BatchPredict_checks (SosMatrix [example_input]) None 2 1 example_memory
               = Inr (Inr (1, SosMatrix [\<lparr>ptr = 10, len = 1, cap = 1\<rparr>], m1))
             \<and> brk m1 = 11 \<and> cells m1 10 = 0 \<and> cells m1 0 = 4 \<and> cells m1 1 = 5)"
proof -
  have d: "Dims (SosMatrix [example_input] :: int matrix) = Inr (1, 2)"
    by (simp add: Dims_def example_input_def)
  have d2: "Dims (CopyMatrix 2 [[0, 0 :: int]]) = Inr (1, 2)"
    by (simp add: Dims_def)
  have d3: "Dims (CopyMatrix 1 [[0], [0 :: int]]) = Inr (2, 1)"
    by (simp add: Dims_def)
  note t1 = BatchPredict_dimension_errors [OF d, of 3 1 "[0, 0]" example_batch None 1 1 example_memory]
  note t2 = BatchPredict_dimension_errors [OF d, of 2 1 "[0, 0]" example_batch
      "Some (CopyMatrix 2 [[0, 0]])" 1 1 example_memory]
  note t3 = BatchPredict_dimension_errors [OF d, of 2 1 "[0, 0]" example_batch
      "Some (CopyMatrix 1 [[0], [0]])" 1 1 example_memory]
  note t4 = BatchPredict_dimension_errors [OF d, of 2 1 "[0, 0]" example_batch None 1 1 example_memory]
  have a: "BatchPredict 1 [0, 0] example_batch (SosMatrix [example_input]) None 3 1 1 example_memory
     = Returned None (Some ''predict batch: input dimension mismatch'') example_memory"
    using t1 by simp
  have b: "BatchPredict 1 [0, 0] example_batch (SosMatrix [example_input])
         (Some (CopyMatrix 2 [[0, 0]])) 2 1 1 example_memory
     = Returned (Some (CopyMatrix 2 [[0, 0]]))
         (Some ''predict batch: output dimension mismatch'') example_memory"
    using t2 d2 by simp
  have c: "BatchPredict 1 [0, 0] example_batch (SosMatrix [example_input])
         (Some (CopyMatrix 1 [[0], [0]])) 2 1 1 example_memory
     = Returned (Some (CopyMatrix 1 [[0], [0]])) (Some ''predict batch: rows mismatch'') example_memory"
    using t3 d3 by simp
  from t4 obtain rows m1 where
    ck: "BatchPredict_checks (SosMatrix [example_input]) None 2 1 example_memory
           = Inr (Inr (1, SosMatrix rows, m1))"
    and l: "int (length rows) = 1"
    and r: "\<forall>i<length rows. rows ! i = \<lparr>ptr = brk example_memory + i * nat 1, len = nat 1, cap = nat 1\<rparr>"
    and k: "brk m1 = brk example_memory + length rows * nat 1"
    and s: "\<forall>a<brk example_memory. cells m1 a = cells example_memory a"
    and z: "\<forall>a. brk example_memory \<le> a \<and> a < brk m1 \<longrightarrow> cells m1 a = 0"
    by (auto simp add: maxAlloc_def)
  from l have l1: "length rows = 1" by simp
  then obtain x where x: "rows = [x]" by (cases rows) auto
  from r l1 have "rows ! 0 = \<lparr>ptr = brk example_memory, len = 1, cap = 1\<rparr>" by simp
  then have rows: "rows = [\<lparr>ptr = 10, len = 1, cap = 1\<rparr>]"
    by (simp add: x example_memory_def)
  have bk: "brk m1 = 11" using k l1 by (simp add: example_memory_def)
  have z0: "cells m1 10 = 0" using z bk by (simp add: example_memory_def)
  have s0: "cells m1 0 = 4" "cells m1 1 = 5" using s by (simp_all add: example_memory_def)
  from a b c ck rows bk z0 s0 show ?thesis by blast
qed

text \<open>
  Where C5 as stated fails: the outputs are an \<open>SosMatrix\<close> with no row, the inputs have
  one row, and the call panics in \<open>Dims\<close> (which reads \<open>len(s[0])\<close>) where the claim has it
  return the error for the rows.
\<close>

theorem BatchPredict_dimension_errors_counterexample:
  "Dims (SosMatrix [example_input] :: int matrix) = Inr (1, 2)
   \<and> crashed_with (BatchPredict 1 [0, 0] example_batch (SosMatrix [example_input])
        (Some (SosMatrix [])) 2 1 1 example_memory) = Some IndexOutOfRange"
  by code_simp

section \<open>BatchPredict: the rows of a batch with the row view on both sides\<close>

lemma final_length:
  assumes "layer_values nss pss xs = Inr yss" and "nss \<noteq> []"
  shows "length (last yss) = length (last nss)"
proof -
  from assms(1) have l: "length yss = length nss"
    unfolding layer_values_def by (rule length_layer_values_from)
  with assms(2) have ne: "yss \<noteq> []" by auto
  have k: "length nss - 1 < length nss" using assms(2) by simp
  from layer_values_from_nth [OF assms(1) [unfolded layer_values_def] k]
  have "length (yss ! (length nss - 1)) = length (nss ! (length nss - 1))"
    by (auto dest: length_layer_value)
  then show ?thesis using ne assms(2) l by (simp add: last_conv_nth)
qed

lemma predictor_row:
  assumes v: "valid_net n"
    and p: "p_neurons p = neurons n" "p_parameters p = parameters n"
    and prev: "prevTmpOutput p = \<lparr>ptr = b, len = mx, cap = mx\<rparr>"
    and tmp: "tmpOutput p = \<lparr>ptr = b + mx, len = mx, cap = mx\<rparr>"
    and mx: "\<forall>l \<in> set (neurons n). length l \<le> mx"
    and bB: "B \<le> b"
    and li: "int (len input) = inputDim n" and wi: "ptr input + len input \<le> B"
    and lo: "int (len out) = outputDim n" and wo: "ptr out + len out \<le> B"
    and dj: "region input \<inter> region out = {}"
  shows "\<exists>M' yss. predictor_Predict p input out M = Inr M'
           \<and> layer_values (neurons n) (parameters n) (contents M input) = Inr yss
           \<and> contents M' out = last yss
           \<and> only_writes (region out \<union> {b ..< b + mx + mx}) M M'"
proof -
  let ?nss = "neurons n"
  let ?prev = "prevTmpOutput p" and ?tmp = "tmpOutput p"
  from v have ne: "?nss \<noteq> []" and od: "outputDim n = int (length (last ?nss))"
    by (simp_all add: valid_net_def)
  have ri: "region input \<subseteq> {0 ..< B}" using wi by (auto simp add: region_def)
  have ro: "region out \<subseteq> {0 ..< B}" using wo by (auto simp add: region_def)
  have ep: "extent ?prev = {b ..< b + mx}" by (simp add: prev extent_def)
  have et: "extent ?tmp = {b + mx ..< b + mx + mx}" by (simp add: tmp extent_def)
  from valid_net_values [OF v, of "contents M input"] li obtain yss where
    yss: "layer_values ?nss (parameters n) (contents M input) = Inr yss"
    by (auto simp add: length_contents)
  have out: "length (last ?nss) \<le> len out" using lo od by simp
  have caps: "\<forall>k. k < length ?nss - 1 \<longrightarrow> length (?nss ! k) \<le> cap ?prev \<and> length (?nss ! k) \<le> cap ?tmp"
    using mx by (simp add: prev tmp)
  have d2: "region input \<inter> extent ?tmp = {}" using ri bB unfolding et by auto
  have d3: "extent ?prev \<inter> extent ?tmp = {}" unfolding ep et by auto
  have d4: "region out \<inter> extent ?tmp = {}" using ro bB unfolding et by auto
  have d5: "region out \<inter> extent ?prev = {}" using ro bB unfolding ep by auto
  from predict_correct [OF ne yss out caps dj d2 d3 d4 d5]
  obtain M' where r: "predict input ?nss (parameters n) ?prev ?tmp out M = Inr M'"
    and h: "holds M' (ptr out) (last yss)"
    and f: "only_writes (region out \<union> (if length ?nss = 1 then {} else extent ?prev \<union> extent ?tmp)) M M'"
    by blast
  have f': "only_writes (region out \<union> {b ..< b + mx + mx}) M M'"
    using f by (rule only_writes_mono) (auto simp add: ep et)
  have "predictor_Predict p input out M = Inr M'"
    using r by (simp add: predictor_Predict_def p)
  moreover have "len out = length (last yss)"
    using final_length [OF yss ne] lo od by simp
  with h have "contents M' out = last yss" by (rule holds_contents)
  ultimately show ?thesis using yss f' by blast
qed

lemma rows_ok_nth:
  assumes "rows_ok n ins outs B" and "i < length ins"
  shows "int (len (ins ! i)) = inputDim n" "ptr (ins ! i) + len (ins ! i) \<le> B"
    "int (len (outs ! i)) = outputDim n" "ptr (outs ! i) + len (outs ! i) \<le> B"
    "region (ins ! i) \<inter> region (outs ! i) = {}"
    "region (ins ! i) \<inter> (\<Union>r \<in> set outs. region r) = {}"
    "region (ins ! i) \<subseteq> {0 ..< B}" "region (outs ! i) \<subseteq> {0 ..< B}"
    "i < length outs"
proof -
  from assms have io: "i < length outs" by (simp add: rows_ok_def)
  from assms have a: "ins ! i \<in> set ins" by simp
  from io have b: "outs ! i \<in> set outs" by simp
  show "i < length outs" by (rule io)
  from assms(1) a show i1: "int (len (ins ! i)) = inputDim n"
    and i2: "ptr (ins ! i) + len (ins ! i) \<le> B" by (simp_all add: rows_ok_def)
  from assms(1) b show "int (len (outs ! i)) = outputDim n"
    and o2: "ptr (outs ! i) + len (outs ! i) \<le> B" by (simp_all add: rows_ok_def)
  from assms(1) a b show "region (ins ! i) \<inter> region (outs ! i) = {}" by (simp add: rows_ok_def)
  from assms(1) a have "\<forall>out \<in> set outs. region (ins ! i) \<inter> region out = {}"
    by (simp add: rows_ok_def)
  then show "region (ins ! i) \<inter> (\<Union>r \<in> set outs. region r) = {}" by blast
  from i2 show "region (ins ! i) \<subseteq> {0 ..< B}" by (auto simp add: region_def)
  from o2 show "region (outs ! i) \<subseteq> {0 ..< B}" by (auto simp add: region_def)
qed

lemma rows_done_input:
  assumes ok: "rows_ok n ins outs B" and inv: "rows_done n ins outs B m0 D M" and i: "i < length ins"
  shows "contents M (ins ! i) = contents m0 (ins ! i)"
proof (rule contents_cong)
  show "\<forall>a \<in> region (ins ! i). cells M a = cells m0 a"
  proof
    fix a assume a: "a \<in> region (ins ! i)"
    with rows_ok_nth(6,7) [OF ok i] have "a < B" "a \<notin> (\<Union>r \<in> set outs. region r)" by auto
    with inv show "cells M a = cells m0 a" by (simp add: rows_done_def)
  qed
qed simp_all

lemma row_step:
  assumes v: "valid_net n" and ok: "rows_ok n ins outs B"
    and p: "p_neurons p = neurons n" "p_parameters p = parameters n"
    and prev: "prevTmpOutput p = \<lparr>ptr = b, len = mx, cap = mx\<rparr>"
    and tmp: "tmpOutput p = \<lparr>ptr = b + mx, len = mx, cap = mx\<rparr>"
    and mx: "\<forall>l \<in> set (neurons n). length l \<le> mx"
    and bB: "B \<le> b"
    and inv: "rows_done n ins outs B m0 D M"
    and i: "i < length ins"
  shows "\<exists>M'. predictor_Predict p (ins ! i) (outs ! i) M = Inr M'
           \<and> rows_done n ins outs B m0 (insert i D) M' \<and> brk M' = brk M"
proof -
  note r = rows_ok_nth [OF ok i]
  from predictor_row [OF v p prev tmp mx bB r(1,2,3,4,5), of M] obtain M' yss where
    run: "predictor_Predict p (ins ! i) (outs ! i) M = Inr M'"
    and yss: "layer_values (neurons n) (parameters n) (contents M (ins ! i)) = Inr yss"
    and c: "contents M' (outs ! i) = last yss"
    and w: "only_writes (region (outs ! i) \<union> {b ..< b + mx + mx}) M M'"
    by blast
  have yss0: "layer_values (neurons n) (parameters n) (contents m0 (ins ! i)) = Inr yss"
    using yss by (simp add: rows_done_input [OF ok inv i])
  have bk: "brk M' = brk M" using w by (rule only_writes_brk)
  have B: "B \<le> brk M'" using inv bk by (simp add: rows_done_def)
  have keep: "\<forall>a<B. a \<notin> (\<Union>r \<in> set outs. region r) \<longrightarrow> cells M' a = cells m0 a"
  proof (intro allI impI)
    fix a assume a: "a < B" "a \<notin> (\<Union>r \<in> set outs. region r)"
    from r(9) have "outs ! i \<in> set outs" by simp
    with a bB have "a \<notin> region (outs ! i) \<union> {b ..< b + mx + mx}" by auto
    with w have "cells M' a = cells M a" by (rule only_writes_cells)
    with inv a show "cells M' a = cells m0 a" by (simp add: rows_done_def)
  qed
  have rows: "\<forall>j \<in> insert i D. j < length outs
             \<and> (\<exists>yss. layer_values (neurons n) (parameters n) (contents m0 (ins ! j)) = Inr yss
                      \<and> contents M' (outs ! j) = last yss)"
  proof
    fix j assume j: "j \<in> insert i D"
    show "j < length outs
             \<and> (\<exists>yss. layer_values (neurons n) (parameters n) (contents m0 (ins ! j)) = Inr yss
                      \<and> contents M' (outs ! j) = last yss)"
    proof (cases "j = i")
      case True
      then show ?thesis using r(9) yss0 c by blast
    next
      case False
      with j have jD: "j \<in> D" by simp
      with inv obtain ys where jl: "j < length outs"
        and ys: "layer_values (neurons n) (parameters n) (contents m0 (ins ! j)) = Inr ys"
        and cj: "contents M (outs ! j) = last ys"
        by (auto simp add: rows_done_def)
      from jl ok have jl': "j < length ins" by (simp add: rows_ok_def)
      from ok jl r(9) False have d1: "region (outs ! j) \<inter> region (outs ! i) = {}"
        by (simp add: rows_ok_def)
      from rows_ok_nth(8) [OF ok jl'] bB have d2: "region (outs ! j) \<inter> {b ..< b + mx + mx} = {}"
        by auto
      from d1 d2 have "region (outs ! j) \<inter> (region (outs ! i) \<union> {b ..< b + mx + mx}) = {}"
        by blast
      with w have "contents M' (outs ! j) = contents M (outs ! j)" by (rule only_writes_contents)
      with jl ys cj show ?thesis by auto
    qed
  qed
  from run B keep rows bk show ?thesis unfolding rows_done_def by blast
qed

end
